theory Spec2Isabelle
  imports Complex_Main "HOL-Library.AList"
begin

section \<open>JSON values and JavaScript strings\<close>

text \<open>
  The proxy (\<^verbatim>\<open>src/proxy.js\<close>) moves JSON between two wire formats. A JSON value is a
  datatype; an object is the list of its own properties in the order \<^verbatim>\<open>for ... in\<close>
  enumerates them, with distinct keys. Numbers are only passed through, never computed
  with. A string is a list of characters; \<^verbatim>\<open>s.length\<close> is \<open>length s\<close>.
\<close>

datatype json =
    JNull
  | JBool bool
  | JNum rat
  | JStr string
  | JArr "json list"
  | JObj "(string \<times> json) list"

text \<open>\<^verbatim>\<open>typeof v === 'object'\<close>: true of objects, arrays and \<^verbatim>\<open>null\<close>.\<close>

definition typeof_object :: "json \<Rightarrow> bool" where
  "typeof_object v = (case v of JNull \<Rightarrow> True | JArr _ \<Rightarrow> True | JObj _ \<Rightarrow> True | _ \<Rightarrow> False)"

definition isArray :: "json \<Rightarrow> bool" where
  "isArray v = (case v of JArr _ \<Rightarrow> True | _ \<Rightarrow> False)"

fun elements :: "json \<Rightarrow> json list" where
  "elements (JArr xs) = xs"
| "elements _ = []"

text \<open>The decimal numeral of an array index, as \<^verbatim>\<open>for ... in\<close> over an array yields it.\<close>

fun decimal :: "nat \<Rightarrow> string" where
  "decimal n =
     (if n < 10 then [char_of (48 + n)] else decimal (n div 10) @ [char_of (48 + n mod 10)])"

text \<open>
  The properties \<^verbatim>\<open>for (const k in v)\<close> visits, with their values: those of an object,
  the indices of an array, none for any other value (\<^verbatim>\<open>null\<close> included).
\<close>

fun own_entries :: "json \<Rightarrow> (string \<times> json) list" where
  "own_entries (JObj kvs) = kvs"
| "own_entries (JArr xs) = zip (map decimal [0..<length xs]) xs"
| "own_entries _ = []"

text \<open>\<^verbatim>\<open>s.split(sep)\<close> for a separator of one character: never empty, \<^verbatim>\<open>''.split(sep)\<close> is \<^verbatim>\<open>['']\<close>.\<close>

fun split_on :: "char \<Rightarrow> string \<Rightarrow> string list" where
  "split_on sep [] = [[]]"
| "split_on sep (c # cs) =
     (if c = sep then [] # split_on sep cs
      else (case split_on sep cs of [] \<Rightarrow> [[c]] | l # ls \<Rightarrow> (c # l) # ls))"

text \<open>\<^verbatim>\<open>xs.join(' ')\<close>.\<close>

fun join_space :: "string list \<Rightarrow> string" where
  "join_space [] = []"
| "join_space [x] = x"
| "join_space (x # y # ys) = x @ '' '' @ join_space (y # ys)"

text \<open>\<^verbatim>\<open>s.startsWith(p)\<close> and \<^verbatim>\<open>s.includes(p)\<close>.\<close>

fun startsWith :: "string \<Rightarrow> string \<Rightarrow> bool" where
  "startsWith [] s = True"
| "startsWith (p # ps) [] = False"
| "startsWith (p # ps) (c # cs) = (p = c \<and> startsWith ps cs)"

fun js_includes :: "string \<Rightarrow> string \<Rightarrow> bool" where
  "js_includes p [] = (p = [])"
| "js_includes p (c # cs) = (startsWith p (c # cs) \<or> js_includes p cs)"

text \<open>
  \<^verbatim>\<open>s.replace(p, r)\<close> with a string pattern: the first occurrence of \<open>p\<close> is replaced,
  wherever it stands; a string without one is returned as it is.
\<close>

fun replace_first :: "string \<Rightarrow> string \<Rightarrow> string \<Rightarrow> string" where
  "replace_first p r [] = (if p = [] then r else [])"
| "replace_first p r (c # cs) =
     (if startsWith p (c # cs) then r @ drop (length p) (c # cs)
      else c # replace_first p r cs)"

text \<open>
  White space as \<^verbatim>\<open>trim\<close> and the regular expression class \<^verbatim>\<open>\s\<close> see it, among the
  characters of the model: tab, line feed, vertical tab, form feed, carriage return, space
  and the no-break space.
\<close>

definition is_space :: "char \<Rightarrow> bool" where
  "is_space c = (of_char c \<in> set [9, 10, 11, 12, 13, 32, 160 :: nat])"

definition trim :: "string \<Rightarrow> string" where
  "trim s = rev (dropWhile is_space (rev (dropWhile is_space s)))"

text \<open>\<^verbatim>\<open>trimmed.replace(/^data:\s*/, '')\<close>.\<close>

definition strip_data :: "string \<Rightarrow> string" where
  "strip_data s = (if startsWith ''data:'' s then dropWhile is_space (drop 5 s) else s)"

section \<open>Schema sanitizer\<close>

lemma element_smaller: "x \<in> set xs \<Longrightarrow> size x < Suc (size_list size xs)"
  by (induction xs) auto

lemma entry_smaller:
  "kv \<in> set kvs \<Longrightarrow> size (snd kv) < Suc (size_list (size_prod (\<lambda>k. 0) size) kvs)"
  by (induction kvs) auto

lemma elements_smaller: "x \<in> set (elements v) \<Longrightarrow> size x < size v"
  by (cases v) (auto simp: element_smaller)

lemma own_entries_smaller: "kv \<in> set (own_entries v) \<Longrightarrow> size (snd kv) < size v"
proof (cases v)
  case (JArr xs)
  assume "kv \<in> set (own_entries v)"
  with JArr have "snd kv \<in> set xs" by (cases kv) (auto dest: set_zip_rightD)
  with JArr show ?thesis by (simp add: element_smaller)
next
  case (JObj kvs)
  assume "kv \<in> set (own_entries v)"
  with JObj show ?thesis by (simp add: entry_smaller)
qed auto

text \<open>
  \<^verbatim>\<open>removeUriFormat\<close> (proxy.js, lines 137 to 170). The first test returns every value
  that is falsy or not of type object as it is. An object whose \<^verbatim>\<open>type\<close> is
  \<^verbatim>\<open>'string'\<close> and whose \<^verbatim>\<open>format\<close> is \<^verbatim>\<open>'uri'\<close> is returned without its
  \<^verbatim>\<open>format\<close>, its other properties untouched. An array is mapped. Any other object is
  rebuilt key by key, in the five branches of the source.
\<close>

function (sequential) removeUriFormat :: "json \<Rightarrow> json" where
  "removeUriFormat (JObj kvs) =
     (if map_of kvs ''type'' = Some (JStr ''string'') \<and> map_of kvs ''format'' = Some (JStr ''uri'')
      then JObj (filter (\<lambda>kv. fst kv \<noteq> ''format'') kvs)
      else JObj (map (\<lambda>kv.
             if fst kv = ''properties'' \<and> typeof_object (snd kv)
             then (fst kv, JObj (map (\<lambda>pkv. (fst pkv, removeUriFormat (snd pkv)))
                                    (own_entries (snd kv))))
             else if fst kv = ''items'' \<and> typeof_object (snd kv)
             then (fst kv, removeUriFormat (snd kv))
             else if fst kv = ''additionalProperties'' \<and> typeof_object (snd kv)
             then (fst kv, removeUriFormat (snd kv))
             else if fst kv \<in> set [''anyOf'', ''allOf'', ''oneOf''] \<and> isArray (snd kv)
             then (fst kv, JArr (map removeUriFormat (elements (snd kv))))
             else (fst kv, removeUriFormat (snd kv))) kvs))"
| "removeUriFormat (JArr xs) = JArr (map removeUriFormat xs)"
| "removeUriFormat v = v"
  by pat_completeness auto
termination
proof (relation "measure size", goal_cases)
  case 1
  show ?case by simp
next
  case (2 kvs kv pkv)
  from 2(4) have "size (snd pkv) < size (snd kv)" by (rule own_entries_smaller)
  also from 2 have "size (snd kv) < size (JObj kvs)" by (simp add: entry_smaller)
  finally show ?case by simp
next
  case (3 kvs kv)
  then show ?case by (simp add: entry_smaller)
next
  case (4 kvs kv)
  then show ?case by (simp add: entry_smaller)
next
  case (5 kvs kv x)
  from 5 have "size x < size (snd kv)" by (simp add: elements_smaller)
  also from 5 have "size (snd kv) < size (JObj kvs)" by (simp add: entry_smaller)
  finally show ?case by simp
next
  case (6 kvs kv)
  then show ?case by (simp add: entry_smaller)
next
  case (7 xs x)
  then show ?case by (simp add: element_smaller)
qed

section \<open>Payload translator\<close>

text \<open>
  The inbound request body. A content block is an object of which the handler reads the
  properties below; a property the block does not have is \<open>None\<close>. A message's
  \<^verbatim>\<open>content\<close> is a string, an array of blocks, or anything else (\<open>COther\<close>).
\<close>

record block =
  b_type :: string
  b_text :: "string option"
  b_id :: "string option"
  b_name :: "string option"
  b_input :: "json option"
  b_tool_use_id :: "string option"
  b_content :: "json option"

datatype content = CString string | CArray "block list" | COther

record in_msg =
  m_role :: string
  m_content :: content

record sys_msg =
  s_text :: "string option"
  s_content :: content

record tool =
  t_name :: string
  t_description :: "string option"
  t_input_schema :: "json option"

record payload =
  p_system :: "sys_msg list option"
  p_messages :: "in_msg list option"
  p_tools :: "tool list option"
  p_thinking :: bool
  p_temperature :: "json option"
  p_stream :: bool

text \<open>
  The outbound request body. \<open>otc_arguments\<close> holds the value whose
  \<^verbatim>\<open>JSON.stringify\<close> is the \<^verbatim>\<open>arguments\<close> string; a property that is left out or
  \<^verbatim>\<open>undefined\<close> is \<open>None\<close>.
\<close>

record out_tool_call =
  otc_id :: "string option"
  otc_name :: "string option"
  otc_arguments :: "json option"

record out_msg =
  om_role :: string
  om_content :: "json option"
  om_tool_calls :: "out_tool_call list option"
  om_tool_call_id :: "string option"

record out_tool =
  ot_name :: string
  ot_description :: "string option"
  ot_parameters :: "json option"

record openai_payload =
  op_model :: string
  op_messages :: "out_msg list"
  op_max_tokens :: nat
  op_temperature :: json
  op_stream :: bool
  op_tools :: "out_tool list option"

record config =
  cfg_reasoning :: string
  cfg_completion :: string
  cfg_maxTokens :: nat

text \<open>
  \<^verbatim>\<open>normalizeContent\<close> (lines 83 to 89): a string as it is, an array as the \<^verbatim>\<open>text\<close> of
  every item joined by a space (\<^verbatim>\<open>join\<close> writes an \<^verbatim>\<open>undefined\<close> element as the empty
  string), \<^verbatim>\<open>null\<close> otherwise.
\<close>

definition item_text :: "block \<Rightarrow> string" where
  "item_text item = (case b_text item of None \<Rightarrow> [] | Some t \<Rightarrow> t)"

definition normalizeContent :: "content \<Rightarrow> string option" where
  "normalizeContent c =
     (case c of
        CString s \<Rightarrow> Some s
      | CArray items \<Rightarrow> Some (join_space (map item_text items))
      | COther \<Rightarrow> None)"

text \<open>Truthiness of a value that is a string, \<^verbatim>\<open>null\<close> or \<^verbatim>\<open>undefined\<close>.\<close>

definition truthy :: "string option \<Rightarrow> bool" where
  "truthy v = (case v of None \<Rightarrow> False | Some s \<Rightarrow> s \<noteq> [])"

text \<open>Lines 94 to 104: \<^verbatim>\<open>normalizeContent(sysMsg.text || sysMsg.content)\<close>.\<close>

definition system_message :: "sys_msg \<Rightarrow> out_msg list" where
  "system_message sysMsg =
     (let normalized = (if truthy (s_text sysMsg) then s_text sysMsg
                        else normalizeContent (s_content sysMsg))
      in if truthy normalized
         then [\<lparr>om_role = ''system'', om_content = map_option JStr normalized,
                om_tool_calls = None, om_tool_call_id = None\<rparr>]
         else [])"

text \<open>Lines 108 to 115: the \<^verbatim>\<open>tool_use\<close> items of an array content, as function calls.\<close>

definition content_items :: "content \<Rightarrow> block list" where
  "content_items c = (case c of CArray items \<Rightarrow> items | _ \<Rightarrow> [])"

definition tool_call_of :: "block \<Rightarrow> out_tool_call" where
  "tool_call_of toolCall =
     \<lparr>otc_id = b_id toolCall, otc_name = b_name toolCall, otc_arguments = b_input toolCall\<rparr>"

text \<open>Lines 124 to 130: \<^verbatim>\<open>content: toolResult.text || toolResult.content\<close>.\<close>

definition tool_message :: "block \<Rightarrow> out_msg" where
  "tool_message toolResult =
     \<lparr>om_role = ''tool'',
      om_content = (if truthy (b_text toolResult) then map_option JStr (b_text toolResult)
                    else b_content toolResult),
      om_tool_calls = None,
      om_tool_call_id = b_tool_use_id toolResult\<rparr>"

text \<open>
  The body of \<^verbatim>\<open>payload.messages.forEach\<close> (lines 107 to 132): what one inbound message
  pushes onto \<^verbatim>\<open>messages\<close>, in order.
\<close>

definition translate_message :: "in_msg \<Rightarrow> out_msg list" where
  "translate_message msg =
     (let toolCalls = map tool_call_of
                        (filter (\<lambda>item. b_type item = ''tool_use'') (content_items (m_content msg)));
          normalized = normalizeContent (m_content msg);
          newMsg = \<lparr>om_role = m_role msg,
                    om_content = (if truthy normalized then map_option JStr normalized else None),
                    om_tool_calls = (if length toolCalls > 0 then Some toolCalls else None),
                    om_tool_call_id = None\<rparr>
      in (if om_content newMsg \<noteq> None \<or> om_tool_calls newMsg \<noteq> None then [newMsg] else [])
         @ map tool_message
             (filter (\<lambda>item. b_type item = ''tool_result'') (content_items (m_content msg))))"

definition build_messages :: "payload \<Rightarrow> out_msg list" where
  "build_messages p =
     (case p_system p of None \<Rightarrow> [] | Some sys \<Rightarrow> concat (map system_message sys))
     @ (case p_messages p of None \<Rightarrow> [] | Some msgs \<Rightarrow> concat (map translate_message msgs))"

text \<open>Lines 172 to 187.\<close>

definition build_tools :: "payload \<Rightarrow> out_tool list" where
  "build_tools p =
     map (\<lambda>t. \<lparr>ot_name = t_name t, ot_description = t_description t,
                ot_parameters = map_option removeUriFormat (t_input_schema t)\<rparr>)
       (filter (\<lambda>t. t_name t \<notin> set [''BatchTool''])
          (case p_tools p of None \<Rightarrow> [] | Some ts \<Rightarrow> ts))"

definition build_payload :: "config \<Rightarrow> payload \<Rightarrow> openai_payload" where
  "build_payload cfg p =
     (let tools = build_tools p
      in \<lparr>op_model = (if p_thinking p then cfg_reasoning cfg else cfg_completion cfg),
          op_messages = build_messages p,
          op_max_tokens = cfg_maxTokens cfg,
          op_temperature = (case p_temperature p of Some t \<Rightarrow> t | None \<Rightarrow> JNum 1),
          op_stream = p_stream p,
          op_tools = (if length tools > 0 then Some tools else None)\<rparr>)"

section \<open>Downstream writer and SSE events\<close>

text \<open>
  Every call of \<^verbatim>\<open>sendSSE\<close> in the handler passes an event name equal to the
  \<^verbatim>\<open>type\<close> of its data, so an event is one value. \<open>MessageStart id model content
  input_tokens output_tokens\<close> has \<^verbatim>\<open>role: 'assistant'\<close> and both stop fields
  \<^verbatim>\<open>null\<close>; \<open>ToolUseBlock id name\<close> has \<^verbatim>\<open>input: {}\<close>; \<open>MessageDelta stop_reason
  output_tokens\<close> has \<^verbatim>\<open>stop_sequence: null\<close>.
\<close>

datatype content_block = TextBlock string | ToolUseBlock "string option" "string option"

datatype block_delta = InputJsonDelta string | TextDelta string | ThinkingDelta string

datatype sse =
    MessageStart string string "content_block list" nat nat
  | Ping
  | ContentBlockStart nat content_block
  | ContentBlockDelta nat block_delta
  | ContentBlockStop nat
  | MessageDelta string "nat option"
  | MessageStop

text \<open>What reaches \<^verbatim>\<open>reply.raw\<close>: \<^verbatim>\<open>writeHead\<close>, \<^verbatim>\<open>write\<close> of one event, \<^verbatim>\<open>end\<close>.\<close>

datatype wire = WriteHead nat "(string \<times> string) list" | Write sse | End

text \<open>
  \<^verbatim>\<open>reply.raw\<close>: the calls it has received so far, and the two flags \<^verbatim>\<open>sendSSE\<close> reads.
  \<open>writeThrows\<close> says whether \<^verbatim>\<open>write\<close> throws; it is the runtime's, as \<open>destroyed\<close>.
\<close>

record writer =
  w_log :: "wire list"
  destroyed :: bool
  writableEnded :: bool
  writeThrows :: bool

text \<open>\<^verbatim>\<open>sendSSE\<close> (lines 15 to 34).\<close>

definition sendSSE :: "writer \<Rightarrow> sse \<Rightarrow> bool \<times> writer" where
  "sendSSE w ev =
     (if destroyed w \<or> writableEnded w then (False, w)
      else if writeThrows w then (False, w)
      else (True, w\<lparr>w_log := w_log w @ [Write ev]\<rparr>))"

text \<open>\<^verbatim>\<open>reply.raw.end()\<close> inside its \<^verbatim>\<open>try\<close>.\<close>

definition raw_end :: "writer \<Rightarrow> writer" where
  "raw_end w = w\<lparr>w_log := w_log w @ [End], writableEnded := True\<rparr>"

section \<open>Streaming re-framer\<close>

text \<open>
  One parsed upstream frame, as far as the handler reads it. \<open>f_error\<close> is the
  \<^verbatim>\<open>message\<close> of a truthy \<^verbatim>\<open>parsed.error\<close>; \<open>f_usage\<close> a truthy \<^verbatim>\<open>parsed.usage\<close>;
  \<open>f_delta\<close> a truthy \<^verbatim>\<open>parsed.choices?.[0]?.delta\<close>. A tool call's \<^verbatim>\<open>index\<close> is a
  small natural number, as array indices are.
\<close>

record tool_fn =
  fn_name :: "string option"
  fn_arguments :: "string option"

record tool_call =
  tc_index :: nat
  tc_id :: "string option"
  tc_function :: "tool_fn option"

record delta =
  d_tool_calls :: "tool_call list option"
  d_content :: "string option"
  d_reasoning :: "string option"

record up_usage =
  prompt_tokens :: "nat option"
  completion_tokens :: "nat option"

record frame =
  f_error :: "string option"
  f_usage :: "up_usage option"
  f_delta :: "delta option"

text \<open>
  What the handler takes from its runtime: \<open>parse\<close> is \<^verbatim>\<open>JSON.parse\<close> on the text of a
  data line (\<open>Inl\<close> carries the message of the error it throws, \<open>Inr None\<close> is the
  value \<^verbatim>\<open>null\<close>); \<open>parseArgs\<close> is \<^verbatim>\<open>JSON.parse\<close> on a tool call's arguments;
  \<open>rnd\<close> is \<^verbatim>\<open>Math.random().toString(36).substr(2, 24)\<close>; \<open>writeHeadThrows\<close> says whether
  \<^verbatim>\<open>reply.raw.writeHead\<close> throws; \<open>replySent\<close> is \<^verbatim>\<open>reply.sent\<close>.
\<close>

record env =
  parse :: "string \<Rightarrow> string + frame option"
  parseArgs :: "string \<Rightarrow> string + json"
  rnd :: string
  writeHeadThrows :: bool
  replySent :: bool

text \<open>
  The variables of one request (lines 65, 66 and 264 to 319) and its \<^verbatim>\<open>reply.raw\<close>.
  The carry-over \<^verbatim>\<open>buffer\<close> of line 318, which only lines 329 to 334 touch, is a
  variable of the read loop below.
\<close>

record state =
  hasStartedStreaming :: bool
  connectionClosed :: bool
  isSucceeded :: bool
  isStreamingStarted :: bool
  accumulatedContent :: string
  accumulatedReasoning :: string
  usage :: "up_usage option"
  textBlockStarted :: bool
  encounteredToolCall :: bool
  toolCallAccumulators :: "(nat \<times> string) list"
  incompleteDataLine :: string
  raw :: writer

definition init_writer :: writer where
  "init_writer = \<lparr>w_log = [], destroyed = False, writableEnded = False, writeThrows = False\<rparr>"

definition init_state :: state where
  "init_state =
     \<lparr>hasStartedStreaming = False, connectionClosed = False, isSucceeded = False,
      isStreamingStarted = False, accumulatedContent = [], accumulatedReasoning = [],
      usage = None, textBlockStarted = False, encounteredToolCall = False,
      toolCallAccumulators = [], incompleteDataLine = [], raw = init_writer\<rparr>"

definition emit :: "state \<Rightarrow> sse \<Rightarrow> state" where
  "emit st ev = st\<lparr>raw := snd (sendSSE (raw st) ev)\<rparr>"

definition sse_headers :: "(string \<times> string) list" where
  "sse_headers =
     [(''Content-Type'', ''text/event-stream''), (''Cache-Control'', ''no-cache''),
      (''Connection'', ''keep-alive'')]"

text \<open>\<^verbatim>\<open>sendSuccessMessage\<close> (lines 267 to 306).\<close>

definition sendSuccessMessage :: "env \<Rightarrow> string \<Rightarrow> state \<Rightarrow> state" where
  "sendSuccessMessage e model st =
     (if isSucceeded st \<or> replySent e \<or> connectionClosed st \<or> hasStartedStreaming st then st
      else
        let st1 = st\<lparr>isSucceeded := True, isStreamingStarted := True,
                     hasStartedStreaming := True\<rparr>
        in if writeHeadThrows e then st1\<lparr>connectionClosed := True\<rparr>
           else
             let st2 = st1\<lparr>raw := (raw st1)\<lparr>w_log := w_log (raw st1) @ [WriteHead 200 sse_headers]\<rparr>\<rparr>;
                 messageId = ''msg_'' @ rnd e;
                 st3 = emit st2 (MessageStart messageId model [] 0 0)
             in emit st3 Ping)"

text \<open>
  \<^verbatim>\<open>s.split(' ').length\<close>, the word count of the usage estimates.
\<close>

definition word_count :: "string \<Rightarrow> nat" where
  "word_count s = length (split_on CHR '' '' s)"

text \<open>
  The keys of \<^verbatim>\<open>toolCallAccumulators\<close> in the order of \<^verbatim>\<open>for (const idx in ...)\<close>:
  integer keys ascending. The list itself keeps the order of insertion.
\<close>

definition for_in_keys :: "(nat \<times> string) list \<Rightarrow> nat list" where
  "for_in_keys acc = sort (map fst acc)"

text \<open>The loop of lines 351 to 357.\<close>

fun stop_tool_blocks :: "state \<Rightarrow> nat list \<Rightarrow> state" where
  "stop_tool_blocks st [] = st"
| "stop_tool_blocks st (idx # idxs) =
     (if connectionClosed st then st
      else stop_tool_blocks (emit st (ContentBlockStop idx)) idxs)"

text \<open>The branch of the \<^verbatim>\<open>[DONE]\<close> sentinel (lines 348 to 385), up to its \<^verbatim>\<open>return\<close>.\<close>

definition done_branch :: "state \<Rightarrow> state" where
  "done_branch st =
     (let st1 = (if encounteredToolCall st
                 then stop_tool_blocks st (for_in_keys (toolCallAccumulators st))
                 else if textBlockStarted st \<and> \<not> connectionClosed st
                 then emit st (ContentBlockStop 0)
                 else st)
      in if \<not> connectionClosed st1
         then
           let st2 = emit st1
                 (MessageDelta (if encounteredToolCall st1 then ''tool_use'' else ''end_turn'')
                    (case usage st1 of
                       Some u \<Rightarrow> completion_tokens u
                     | None \<Rightarrow> Some (word_count (accumulatedContent st1)
                                      + word_count (accumulatedReasoning st1))));
               st3 = emit st2 MessageStop
           in st3\<lparr>raw := raw_end (raw st3)\<rparr>
         else st1)"

text \<open>
  An exception thrown inside the \<^verbatim>\<open>try\<close> of lines 389 to 477 is its message; the state
  keeps what was assigned before the throw. Reading a property of \<^verbatim>\<open>undefined\<close> or
  \<^verbatim>\<open>null\<close> throws a \<^verbatim>\<open>TypeError\<close> with the message below.
\<close>

definition cannot_read :: "string \<Rightarrow> string \<Rightarrow> string" where
  "cannot_read what prop =
     ''Cannot read properties of '' @ what @ '' (reading '' @ [CHR 0x27] @ prop @ [CHR 0x27] @ '')''"

definition accumulated :: "(nat \<times> string) list \<Rightarrow> nat \<Rightarrow> string" where
  "accumulated acc idx = (case map_of acc idx of None \<Rightarrow> [] | Some s \<Rightarrow> s)"

text \<open>The body of \<^verbatim>\<open>for (const toolCall of delta.tool_calls)\<close>, lines 405 to 433.\<close>

definition tool_call_step :: "state \<Rightarrow> tool_call \<Rightarrow> string option \<times> state" where
  "tool_call_step st toolCall =
     (let st1 = st\<lparr>encounteredToolCall := True\<rparr>;
          idx = tc_index toolCall;
          opened =
            (if map_of (toolCallAccumulators st1) idx = None
             then
               let st2 = st1\<lparr>toolCallAccumulators :=
                               AList.update idx [] (toolCallAccumulators st1)\<rparr>
               in (case tc_function toolCall of
                     None \<Rightarrow> (Some (cannot_read ''undefined'' ''name''), st2)
                   | Some f \<Rightarrow>
                       (None, emit st2
                          (ContentBlockStart idx (ToolUseBlock (tc_id toolCall) (fn_name f)))))
             else (None, st1))
      in case opened of
           (Some err, st3) \<Rightarrow> (Some err, st3)
         | (None, st3) \<Rightarrow>
             (case tc_function toolCall of
                None \<Rightarrow> (Some (cannot_read ''undefined'' ''arguments''), st3)
              | Some f \<Rightarrow>
                  let newArgs = (if truthy (fn_arguments f) then the (fn_arguments f) else []);
                      oldArgs = accumulated (toolCallAccumulators st3) idx
                  in if length newArgs > length oldArgs
                     then
                       let deltaText = drop (length oldArgs) newArgs;
                           st4 = emit st3 (ContentBlockDelta idx (InputJsonDelta deltaText))
                       in (None, st4\<lparr>toolCallAccumulators :=
                                        AList.update idx newArgs (toolCallAccumulators st4)\<rparr>)
                     else (None, st3)))"

fun tool_calls_loop :: "state \<Rightarrow> tool_call list \<Rightarrow> string option \<times> state" where
  "tool_calls_loop st [] = (None, st)"
| "tool_calls_loop st (toolCall # rest) =
     (if connectionClosed st then (None, st)
      else (case tool_call_step st toolCall of
              (Some err, st') \<Rightarrow> (Some err, st')
            | (None, st') \<Rightarrow> tool_calls_loop st' rest))"

text \<open>Lines 436 to 446 and 457 to 467: the text block is opened once.\<close>

definition open_text_block :: "state \<Rightarrow> state" where
  "open_text_block st =
     (if \<not> textBlockStarted st
      then emit (st\<lparr>textBlockStarted := True\<rparr>) (ContentBlockStart 0 (TextBlock []))
      else st)"

text \<open>Lines 401 to 477: the three branches on \<^verbatim>\<open>delta\<close>.\<close>

definition handle_delta :: "state \<Rightarrow> delta option \<Rightarrow> string option \<times> state" where
  "handle_delta st dl =
     (case dl of
        None \<Rightarrow> (None, st)
      | Some d \<Rightarrow>
          if d_tool_calls d \<noteq> None \<and> \<not> connectionClosed st
          then tool_calls_loop st (the (d_tool_calls d))
          else if truthy (d_content d) \<and> \<not> connectionClosed st
          then
            let st1 = open_text_block st;
                st2 = st1\<lparr>accumulatedContent := accumulatedContent st1 @ the (d_content d)\<rparr>
            in (None, emit st2 (ContentBlockDelta 0 (TextDelta (the (d_content d)))))
          else if truthy (d_reasoning d) \<and> \<not> connectionClosed st
          then
            let st1 = open_text_block st;
                st2 = st1\<lparr>accumulatedReasoning := accumulatedReasoning st1 @ the (d_reasoning d)\<rparr>
            in (None, emit st2 (ContentBlockDelta 0 (ThinkingDelta (the (d_reasoning d)))))
          else (None, st))"

text \<open>Lines 391 to 477: what follows a successful \<^verbatim>\<open>JSON.parse\<close>.\<close>

definition handle_parsed :: "env \<Rightarrow> string \<Rightarrow> state \<Rightarrow> frame \<Rightarrow> string option \<times> state" where
  "handle_parsed e model st parsed =
     (case f_error parsed of
        Some msg \<Rightarrow> (Some msg, st)
      | None \<Rightarrow>
          let st1 = (if \<not> isStreamingStarted st \<and> \<not> connectionClosed st
                     then sendSuccessMessage e model st else st);
              st2 = (case f_usage parsed of None \<Rightarrow> st1 | Some u \<Rightarrow> st1\<lparr>usage := Some u\<rparr>)
          in handle_delta st2 (f_delta parsed))"

text \<open>The \<^verbatim>\<open>try\<close> block, lines 389 to 477.\<close>

definition try_body :: "env \<Rightarrow> string \<Rightarrow> state \<Rightarrow> string \<Rightarrow> string option \<times> state" where
  "try_body e model st dataStr =
     (case parse e dataStr of
        Inl msg \<Rightarrow> (Some msg, st)
      | Inr None \<Rightarrow> (Some (cannot_read ''null'' ''error''), st)
      | Inr (Some parsed) \<Rightarrow> handle_parsed e model st parsed)"

text \<open>
  One pass of \<^verbatim>\<open>for (const line of lines)\<close> (lines 337 to 490) after its first test,
  with the way it leaves the pass.
\<close>

datatype flow = Continue | Break | Return

definition looks_truncated :: "string \<Rightarrow> bool" where
  "looks_truncated msg =
     (js_includes ''Unterminated'' msg \<or> js_includes ''Unexpected end'' msg
      \<or> js_includes ''Unexpected token'' msg)"

definition handle_line :: "env \<Rightarrow> string \<Rightarrow> state \<Rightarrow> string \<Rightarrow> flow \<times> state" where
  "handle_line e model st line =
     (let trimmed = trim line
      in if trimmed = [] \<or> \<not> startsWith ''data:'' trimmed then (Continue, st)
         else
           let dataStr0 = strip_data trimmed;
               dataStr = (if incompleteDataLine st \<noteq> [] then incompleteDataLine st @ dataStr0
                          else dataStr0);
               st1 = (if incompleteDataLine st \<noteq> [] then st\<lparr>incompleteDataLine := []\<rparr> else st)
           in if dataStr = ''[DONE]'' then (Return, done_branch st1)
              else if connectionClosed st1 then (Break, st1)
              else (case try_body e model st1 dataStr of
                      (None, st2) \<Rightarrow> (Continue, st2)
                    | (Some msg, st2) \<Rightarrow>
                        if looks_truncated msg
                        then (Continue, st2\<lparr>incompleteDataLine := dataStr\<rparr>)
                        else (Continue, st2)))"

text \<open>The \<^verbatim>\<open>for\<close> loop over the complete lines; \<open>True\<close> when the handler returned.\<close>

fun process_lines :: "env \<Rightarrow> string \<Rightarrow> state \<Rightarrow> string list \<Rightarrow> bool \<times> state" where
  "process_lines e model st [] = (False, st)"
| "process_lines e model st (line # rest) =
     (if connectionClosed st then (False, st)
      else (case handle_line e model st line of
              (Return, st') \<Rightarrow> (True, st')
            | (Break, st') \<Rightarrow> (False, st')
            | (Continue, st') \<Rightarrow> process_lines e model st' rest))"

text \<open>
  Lines 325 to 336. \<open>chunk\<close> is the text \<^verbatim>\<open>decoder.decode(value, { stream: true })\<close>
  returns for one read; the decoder keeps an unfinished byte sequence for the next read,
  so the texts of the reads, put together, are the text of the bytes put together.
\<close>

definition process_chunk ::
  "env \<Rightarrow> string \<Rightarrow> string \<Rightarrow> state \<Rightarrow> string \<Rightarrow> string \<times> bool \<times> state" where
  "process_chunk e model buffer st chunk =
     (let lines = split_on (CHR 0x0A) (buffer @ chunk)
      in (last lines, process_lines e model st (butlast lines)))"

text \<open>
  The upstream body: the reads that carry a value, each with whether a \<^verbatim>\<open>close\<close> or
  \<^verbatim>\<open>error\<close> event of \<^verbatim>\<open>reply.raw\<close> fired while the handler awaited it, and how the
  body ends: the read that reports \<^verbatim>\<open>done\<close>, or a read that rejects with a message.
\<close>

datatype ending = Done bool | Rejected bool string

datatype loop_exit = Finished | Returned | Threw string

text \<open>The \<^verbatim>\<open>while (!done && !connectionClosed)\<close> loop, lines 321 to 493.\<close>

fun read_loop ::
  "env \<Rightarrow> string \<Rightarrow> string \<Rightarrow> state \<Rightarrow> (bool \<times> string) list \<Rightarrow> ending
     \<Rightarrow> loop_exit \<times> state" where
  "read_loop e model buffer st [] fin =
     (if connectionClosed st then (Finished, st)
      else (case fin of
              Done gone \<Rightarrow> (Finished, st\<lparr>connectionClosed := gone\<rparr>)
            | Rejected gone msg \<Rightarrow> (Threw msg, st\<lparr>connectionClosed := gone\<rparr>)))"
| "read_loop e model buffer st ((gone, chunk) # reads) fin =
     (if connectionClosed st then (Finished, st)
      else
        let st1 = st\<lparr>connectionClosed := gone\<rparr>
        in if \<not> connectionClosed st1
           then (case process_chunk e model buffer st1 chunk of
                   (buffer', True, st2) \<Rightarrow> (Returned, st2)
                 | (buffer', False, st2) \<Rightarrow> read_loop e model buffer' st2 reads fin)
           else read_loop e model buffer st1 reads fin)"

section \<open>Non-streaming response translator\<close>

text \<open>
  The complete upstream response, as far as lines 214 to 257 read it. The \<^verbatim>\<open>content\<close>
  of the message is left out (\<^verbatim>\<open>undefined\<close>), \<^verbatim>\<open>null\<close>, or a string.
\<close>

datatype up_content = NoContent | NullContent | TextContent string

record fn_call =
  fc_name :: "string option"
  fc_arguments :: string

record up_tool_call =
  utc_id :: "string option"
  utc_function :: fn_call

record up_message =
  um_role :: "string option"
  um_content :: up_content
  um_tool_calls :: "up_tool_call list option"

record choice =
  ch_message :: up_message
  ch_finish_reason :: "string option"

record response =
  r_error :: "string option"
  r_id :: "string option"
  r_choices :: "choice list"
  r_usage :: "up_usage option"

datatype resp_block = RText up_content | RToolUse "string option" "string option" json

record anthropic_response =
  ar_content :: "resp_block list"
  ar_id :: string
  ar_model :: string
  ar_role :: "string option"
  ar_stop_reason :: string
  ar_input_tokens :: "nat option"
  ar_output_tokens :: "nat option"

text \<open>\<^verbatim>\<open>mapStopReason\<close> (lines 36 to 43).\<close>

definition mapStopReason :: "string option \<Rightarrow> string" where
  "mapStopReason finishReason =
     (if finishReason = Some ''tool_calls'' then ''tool_use''
      else if finishReason = Some ''stop'' then ''end_turn''
      else if finishReason = Some ''length'' then ''max_tokens''
      else ''end_turn'')"

text \<open>Lines 227 to 229.\<close>

definition message_id :: "env \<Rightarrow> string option \<Rightarrow> string" where
  "message_id e data_id =
     (if truthy data_id then replace_first ''chatcmpl'' ''msg'' (the data_id)
      else ''msg_'' @ rnd e)"

text \<open>Lines 237 to 242: the first \<^verbatim>\<open>JSON.parse\<close> that throws ends the map.\<close>

fun tool_use_blocks :: "env \<Rightarrow> up_tool_call list \<Rightarrow> string + resp_block list" where
  "tool_use_blocks e [] = Inr []"
| "tool_use_blocks e (toolCall # rest) =
     (case parseArgs e (fc_arguments (utc_function toolCall)) of
        Inl msg \<Rightarrow> Inl msg
      | Inr input \<Rightarrow>
          (case tool_use_blocks e rest of
             Inl msg \<Rightarrow> Inl msg
           | Inr blocks \<Rightarrow>
               Inr (RToolUse (utc_id toolCall) (fc_name (utc_function toolCall)) input # blocks)))"

text \<open>
  \<^verbatim>\<open>msg.content.split(' ').length\<close> on an outbound message: a \<^verbatim>\<open>TypeError\<close> unless the
  content is a string.
\<close>

definition content_words :: "json option \<Rightarrow> string + nat" where
  "content_words c =
     (case c of
        None \<Rightarrow> Inl (cannot_read ''undefined'' ''split'')
      | Some JNull \<Rightarrow> Inl (cannot_read ''null'' ''split'')
      | Some (JStr s) \<Rightarrow> Inr (word_count s)
      | Some _ \<Rightarrow> Inl ''msg.content.split is not a function'')"

text \<open>Line 253: \<^verbatim>\<open>messages.reduce((acc, msg) => acc + msg.content.split(' ').length, 0)\<close>.\<close>

fun estimate_input :: "nat \<Rightarrow> out_msg list \<Rightarrow> string + nat" where
  "estimate_input acc [] = Inr acc"
| "estimate_input acc (msg # rest) =
     (case content_words (om_content msg) of
        Inl err \<Rightarrow> Inl err
      | Inr n \<Rightarrow> estimate_input (acc + n) rest)"

text \<open>
  Lines 214 to 260, in the order the source evaluates them; \<open>Inl\<close> is the message of
  what it throws.
\<close>

definition translate_response ::
  "env \<Rightarrow> openai_payload \<Rightarrow> response \<Rightarrow> string + anthropic_response" where
  "translate_response e openaiPayload data =
     (case r_error data of
        Some msg \<Rightarrow> Inl msg
      | None \<Rightarrow>
          (case r_choices data of
             [] \<Rightarrow> Inl (cannot_read ''undefined'' ''message'')
           | choice # _ \<Rightarrow>
               let openaiMessage = ch_message choice;
                   stopReason = mapStopReason (ch_finish_reason choice);
                   toolCalls = (case um_tool_calls openaiMessage of None \<Rightarrow> [] | Some tcs \<Rightarrow> tcs);
                   messageId = message_id e (r_id data)
               in (case tool_use_blocks e toolCalls of
                     Inl msg \<Rightarrow> Inl msg
                   | Inr blocks \<Rightarrow>
                       (case (case r_usage data of
                                Some u \<Rightarrow> Inr (prompt_tokens u)
                              | None \<Rightarrow> map_sum id Some
                                          (estimate_input 0 (op_messages openaiPayload))) of
                          Inl msg \<Rightarrow> Inl msg
                        | Inr input_tokens \<Rightarrow>
                            (case (case r_usage data of
                                     Some u \<Rightarrow> Inr (completion_tokens u)
                                   | None \<Rightarrow>
                                       (case um_content openaiMessage of
                                          NoContent \<Rightarrow>
                                            Inl (cannot_read ''undefined'' ''split'')
                                        | NullContent \<Rightarrow>
                                            Inl (cannot_read ''null'' ''split'')
                                        | TextContent c \<Rightarrow>
                                            Inr (Some (word_count c)))) of
                               Inl msg \<Rightarrow> Inl msg
                             | Inr output_tokens \<Rightarrow>
                                 Inr \<lparr>ar_content = RText (um_content openaiMessage) # blocks,
                                      ar_id = messageId,
                                      ar_model = op_model openaiPayload,
                                      ar_role = um_role openaiMessage,
                                      ar_stop_reason = stopReason,
                                      ar_input_tokens = input_tokens,
                                      ar_output_tokens = output_tokens\<rparr>)))))"

section \<open>The request handler\<close>

text \<open>
  What \<^verbatim>\<open>fetch\<close> gives the handler: a rejection with a message, or a response, of which
  the handler reads \<^verbatim>\<open>ok\<close>, \<^verbatim>\<open>status\<close>, and then \<^verbatim>\<open>text()\<close>, \<^verbatim>\<open>json()\<close> (\<open>Inl\<close> when it
  rejects) or the reads of the body.
\<close>

record upstream =
  up_ok :: bool
  up_status :: nat
  up_text :: string
  up_json :: "string + response"
  up_reads :: "(bool \<times> string) list"
  up_ending :: ending

datatype fetch_result = FetchRejected string | Fetched upstream

text \<open>
  What the handler hands to the framework: a value to send with a status code, or
  \<^verbatim>\<open>undefined\<close> (\<open>NoReply\<close>). What it wrote to \<^verbatim>\<open>reply.raw\<close> by itself is in the state.
\<close>

datatype body = ErrorBody string | MessageBody anthropic_response

datatype outcome = Replied nat body | NoReply

text \<open>The \<^verbatim>\<open>catch\<close> block of the handler, lines 502 to 508.\<close>

definition catch_block :: "env \<Rightarrow> state \<Rightarrow> string \<Rightarrow> outcome" where
  "catch_block e st msg =
     (if \<not> replySent e \<and> \<not> hasStartedStreaming st \<and> \<not> connectionClosed st
      then Replied 500 (ErrorBody msg)
      else NoReply)"

text \<open>The branch of a response that is not \<^verbatim>\<open>ok\<close>, lines 201 to 208.\<close>

definition not_ok_branch :: "env \<Rightarrow> state \<Rightarrow> upstream \<Rightarrow> outcome" where
  "not_ok_branch e st up =
     (if \<not> replySent e \<and> \<not> hasStartedStreaming st \<and> \<not> connectionClosed st
      then Replied (up_status up) (ErrorBody (up_text up))
      else NoReply)"

text \<open>
  The \<^verbatim>\<open>try\<close> block of the handler of \<^verbatim>\<open>POST /v1/messages\<close> (lines 77 to 501):
  \<open>Inl\<close> is the message of what it throws, \<open>Inr\<close> what it returns. \<open>gone\<close> says
  whether a \<^verbatim>\<open>close\<close> or \<^verbatim>\<open>error\<close> event of \<^verbatim>\<open>reply.raw\<close> fired while the handler
  awaited the upstream response.
\<close>

definition try_block ::
  "env \<Rightarrow> config \<Rightarrow> payload \<Rightarrow> bool \<Rightarrow> fetch_result \<Rightarrow> (string + outcome) \<times> state" where
  "try_block e cfg p gone fr =
     (let openaiPayload = build_payload cfg p;
          st = init_state\<lparr>connectionClosed := gone\<rparr>
      in case fr of
           FetchRejected msg \<Rightarrow> (Inl msg, st)
         | Fetched up \<Rightarrow>
             if \<not> up_ok up then (Inr (not_ok_branch e st up), st)
             else if \<not> op_stream openaiPayload
             then (case up_json up of
                     Inl msg \<Rightarrow> (Inl msg, st)
                   | Inr data \<Rightarrow>
                       (case translate_response e openaiPayload data of
                          Inl msg \<Rightarrow> (Inl msg, st)
                        | Inr anthropicResponse \<Rightarrow>
                            (Inr (Replied 200 (MessageBody anthropicResponse)), st)))
             else (case read_loop e (op_model openaiPayload) [] st (up_reads up)
                         (up_ending up) of
                     (Threw msg, st') \<Rightarrow> (Inl msg, st')
                   | (Returned, st') \<Rightarrow> (Inr NoReply, st')
                   | (Finished, st') \<Rightarrow>
                       (Inr NoReply,
                        if \<not> connectionClosed st' then st'\<lparr>raw := raw_end (raw st')\<rparr>
                        else st')))"

text \<open>The handler: the \<^verbatim>\<open>try\<close> block and its \<^verbatim>\<open>catch\<close> (lines 64 to 509).\<close>

definition handler ::
  "env \<Rightarrow> config \<Rightarrow> payload \<Rightarrow> bool \<Rightarrow> fetch_result \<Rightarrow> outcome \<times> state" where
  "handler e cfg p gone fr =
     (case try_block e cfg p gone fr of
        (Inl msg, st) \<Rightarrow> (catch_block e st msg, st)
      | (Inr out, st) \<Rightarrow> (out, st))"

section \<open>Derived notions and example inputs\<close>

subsection \<open>Lines, and the inputs of the examples\<close>

text \<open>A line the \<^verbatim>\<open>for\<close> loop does not skip at line 339.\<close>

definition is_data_line :: "string \<Rightarrow> bool" where
  "is_data_line line = (trim line \<noteq> [] \<and> startsWith ''data:'' (trim line))"

text \<open>The inputs the theorems below are instantiated at.\<close>

definition nested_uri_schema :: json where
  "nested_uri_schema =
     JObj [(''type'', JStr ''string''), (''format'', JStr ''uri''),
           (''anyOf'', JArr [JObj [(''type'', JStr ''string''), (''format'', JStr ''uri'')]])]"

definition example_frame :: frame where
  "example_frame =
     \<lparr>f_error = None, f_usage = None,
      f_delta = Some \<lparr>d_tool_calls = None, d_content = Some ''hi'', d_reasoning = None\<rparr>\<rparr>"

definition example_frame_text :: string where
  \<open>example_frame_text = ''{"choices":[{"delta":{"content":"hi"}}]}''\<close>

definition example_parse :: "string \<Rightarrow> string + frame option" where
  "example_parse s =
     (if s = example_frame_text then Inr (Some example_frame)
      else Inl ''Unexpected end of JSON input'')"

definition example_parseArgs :: "string \<Rightarrow> string + json" where
  "example_parseArgs s =
     (if s = ''{}'' then Inr (JObj []) else Inl ''Unexpected end of JSON input'')"

definition example_env :: env where
  "example_env =
     \<lparr>parse = example_parse, parseArgs = example_parseArgs, rnd = ''k3x9'',
      writeHeadThrows = False, replySent = False\<rparr>"

definition example_config :: config where
  "example_config = \<lparr>cfg_reasoning = ''kimi-r'', cfg_completion = ''kimi-c'', cfg_maxTokens = 16384\<rparr>"

definition example_response :: response where
  "example_response =
     \<lparr>r_error = None, r_id = Some ''chatcmpl-1'',
      r_choices = [\<lparr>ch_message = \<lparr>um_role = Some ''assistant'', um_content = TextContent ''hello'',
                                    um_tool_calls = None\<rparr>,
                    ch_finish_reason = Some ''stop''\<rparr>],
      r_usage = None\<rparr>"

definition example_payload :: payload where
  "example_payload =
     \<lparr>p_system = None,
      p_messages = Some [\<lparr>m_role = ''user'', m_content = CString ''hi''\<rparr>],
      p_tools = None, p_thinking = False, p_temperature = None, p_stream = False\<rparr>"

definition rate_limited :: upstream where
  "rate_limited =
     \<lparr>up_ok = False, up_status = 429, up_text = ''rate limited'', up_json = Inl [],
      up_reads = [], up_ending = Done False\<rparr>"

definition broken_stream :: upstream where
  "broken_stream =
     \<lparr>up_ok = True, up_status = 200, up_text = [], up_json = Inl [],
      up_reads = [(False, ''data: '' @ example_frame_text @ [CHR 0x0A])],
      up_ending = Rejected False ''terminated''\<rparr>"

definition streaming_payload :: payload where
  "streaming_payload = example_payload\<lparr>p_stream := True\<rparr>"

definition tool_only_payload :: payload where
  "tool_only_payload =
     \<lparr>p_system = None,
      p_messages = Some
        [\<lparr>m_role = ''user'', m_content = CString ''list the files''\<rparr>,
         \<lparr>m_role = ''assistant'',
          m_content = CArray
            [\<lparr>b_type = ''tool_use'', b_text = None, b_id = Some ''toolu_1'',
              b_name = Some ''ls'', b_input = Some (JObj []), b_tool_use_id = None,
              b_content = None\<rparr>]\<rparr>],
      p_tools = None, p_thinking = False, p_temperature = None, p_stream = False\<rparr>"

definition plain_upstream :: upstream where
  "plain_upstream =
     \<lparr>up_ok = True, up_status = 200, up_text = [], up_json = Inr example_response,
      up_reads = [], up_ending = Done False\<rparr>"

lemmas stream_defs =
  try_block_def process_chunk_def handle_line_def try_body_def
  handle_parsed_def handle_delta_def sendSuccessMessage_def emit_def sendSSE_def
  open_text_block_def trim_def is_space_def strip_data_def truthy_def
  looks_truncated_def init_state_def init_writer_def build_payload_def

lemmas example_defs =
  example_env_def example_parse_def example_frame_text_def example_frame_def
  example_config_def example_payload_def streaming_payload_def

subsection \<open>Tool results\<close>

definition tool_result_with_text :: in_msg where
  "tool_result_with_text =
     \<lparr>m_role = ''user'',
      m_content = CArray
        [\<lparr>b_type = ''tool_result'', b_text = Some ''42'', b_id = None, b_name = None,
          b_input = None, b_tool_use_id = Some ''toolu_1'', b_content = None\<rparr>]\<rparr>"

definition tool_round_trip :: payload where
  "tool_round_trip =
     \<lparr>p_system = None,
      p_messages = Some
        [\<lparr>m_role = ''assistant'',
          m_content = CArray
            [\<lparr>b_type = ''text'', b_text = Some ''listing'', b_id = None, b_name = None,
              b_input = None, b_tool_use_id = None, b_content = None\<rparr>,
             \<lparr>b_type = ''tool_use'', b_text = None, b_id = Some ''toolu_1'',
              b_name = Some ''ls'', b_input = Some (JObj []), b_tool_use_id = None,
              b_content = None\<rparr>]\<rparr>,
         \<lparr>m_role = ''user'',
          m_content = CArray
            [\<lparr>b_type = ''tool_result'', b_text = None, b_id = None, b_name = None,
              b_input = None, b_tool_use_id = Some ''toolu_1'',
              b_content = Some (JStr ''a.txt'')\<rparr>,
             \<lparr>b_type = ''text'', b_text = Some ''next'', b_id = None, b_name = None,
              b_input = None, b_tool_use_id = None, b_content = None\<rparr>]\<rparr>],
      p_tools = None, p_thinking = False, p_temperature = None, p_stream = False\<rparr>"

text \<open>The \<^verbatim>\<open>tool_result\<close> items of an array content (line 123).\<close>

definition tool_results :: "block list \<Rightarrow> block list" where
  "tool_results items = filter (\<lambda>item. b_type item = ''tool_result'') items"

text \<open>The text an item that is not a \<^verbatim>\<open>tool_result\<close> gives to the joined content.\<close>

definition other_text :: "block \<Rightarrow> string" where
  "other_text item = (if b_type item = ''tool_result'' then [] else item_text item)"

subsection \<open>Open connections and the sentinel\<close>

text \<open>A writer that \<^verbatim>\<open>sendSSE\<close> writes to: not destroyed, not ended, not throwing.\<close>

definition writable :: "writer \<Rightarrow> bool" where
  "writable w = (\<not> destroyed w \<and> \<not> writableEnded w \<and> \<not> writeThrows w)"

text \<open>
  Two reads: a data line that holds an unterminated JSON string, then the sentinel.
\<close>

definition broken_then_done :: "string list" where
  \<open>broken_then_done =
     [''data: "abc'' @ [CHR 0x0A], ''data: [DONE]'' @ [CHR 0x0A, CHR 0x0A]]\<close>

subsection \<open>Reads\<close>

text \<open>
  The complete lines of a text and what stays in the buffer (lines 332 to 334): all but
  the last element of \<^verbatim>\<open>split('\n')\<close>, and the last.
\<close>

definition complete_lines :: "string \<Rightarrow> string list" where
  "complete_lines s = butlast (split_on (CHR 0x0A) s)"

definition remainder :: "string \<Rightarrow> string" where
  "remainder s = last (split_on (CHR 0x0A) s)"

text \<open>Reads that carry the given texts, with no close event in between.\<close>

definition quiet_reads :: "string list \<Rightarrow> (bool \<times> string) list" where
  "quiet_reads chunks = map (\<lambda>chunk. (False, chunk)) chunks"

text \<open>
  The read loop on the whole text as one piece: what two ways of cutting the same text
  into reads are both compared with.
\<close>

definition whole_text ::
  "env \<Rightarrow> string \<Rightarrow> string \<Rightarrow> state \<Rightarrow> string \<Rightarrow> ending \<Rightarrow> loop_exit \<times> state" where
  "whole_text e model buf st text fin =
     (if connectionClosed st then (Finished, st)
      else (case process_lines e model st (complete_lines (buf @ text)) of
              (True, s) \<Rightarrow> (Returned, s)
            | (False, s) \<Rightarrow> read_loop e model [] s [] fin))"

definition split_frame_reads :: "string list" where
  \<open>split_frame_reads =
     [''data: {"choi'', ''ces":[{"delta":{"content":"hi"}}]}'' @ [CHR 0x0A, CHR 0x0A]]\<close>

definition whole_frame_reads :: "string list" where
  "whole_frame_reads = [''data: '' @ example_frame_text @ [CHR 0x0A, CHR 0x0A]]"

definition open_stream :: upstream where
  "open_stream =
     \<lparr>up_ok = True, up_status = 200, up_text = [], up_json = Inl [], up_reads = [],
      up_ending = Done False\<rparr>"

subsection \<open>Frames and tool-call arguments\<close>





text \<open>
  The \<^verbatim>\<open>partial_json\<close> fragments written for one index, put together.
\<close>

fun partial_json :: "nat \<Rightarrow> wire \<Rightarrow> string" where
  "partial_json idx (Write (ContentBlockDelta i (InputJsonDelta t))) = (if i = idx then t else [])"
| "partial_json idx w = []"

definition emitted_json :: "nat \<Rightarrow> wire list \<Rightarrow> string" where
  "emitted_json idx events = concat (map (partial_json idx) events)"

text \<open>A \<^verbatim>\<open>content_block_delta\<close> event of one index.\<close>

fun is_delta_at :: "nat \<Rightarrow> wire \<Rightarrow> bool" where
  "is_delta_at idx (Write (ContentBlockDelta i d)) = (i = idx)"
| "is_delta_at idx w = False"

text \<open>
  The connection is open and what has been written for an index is what is accumulated
  for it.
\<close>

definition tracks :: "nat \<Rightarrow> state \<Rightarrow> bool" where
  "tracks idx st =
     (\<not> connectionClosed st \<and> writable (raw st)
      \<and> emitted_json idx (w_log (raw st)) = accumulated (toolCallAccumulators st) idx)"

subsection \<open>The header block\<close>

text \<open>
  The header block of a streamed response: the call of \<^verbatim>\<open>writeHead\<close>, the
  \<^verbatim>\<open>message_start\<close> event and the \<^verbatim>\<open>ping\<close> event, as they stand in what was written.
\<close>

fun is_header_event :: "wire \<Rightarrow> bool" where
  "is_header_event (WriteHead status headers) = True"
| "is_header_event (Write (MessageStart i m c it ot)) = True"
| "is_header_event (Write Ping) = True"
| "is_header_event w = False"

definition header_block :: "wire list \<Rightarrow> wire list" where
  "header_block events = filter is_header_event events"

text \<open>The header block \<^verbatim>\<open>sendSuccessMessage\<close> writes to a writable connection.\<close>

definition full_header :: "env \<Rightarrow> string \<Rightarrow> wire list" where
  "full_header e model =
     [WriteHead 200 sse_headers, Write (MessageStart (''msg_'' @ rnd e) model [] 0 0),
      Write Ping]"

text \<open>
  The header block is written at most once, and not before \<^verbatim>\<open>hasStartedStreaming\<close> is
  set: it is absent, or cut after \<^verbatim>\<open>writeHead\<close> (the writer refused the events), or full.
\<close>

definition header_ok :: "env \<Rightarrow> string \<Rightarrow> state \<Rightarrow> bool" where
  "header_ok e model st =
     ((hasStartedStreaming st \<or> header_block (w_log (raw st)) = [])
      \<and> header_block (w_log (raw st))
          \<in> set [[], [WriteHead 200 sse_headers], full_header e model])"

text \<open>A step that writes no header event and leaves \<^verbatim>\<open>hasStartedStreaming\<close> as it is.\<close>

definition quiet :: "state \<Rightarrow> state \<Rightarrow> bool" where
  "quiet st st' =
     (hasStartedStreaming st' = hasStartedStreaming st
      \<and> (\<exists>events. w_log (raw st') = w_log (raw st) @ events \<and> header_block events = []))"

text \<open>A step that only adds to what was written and keeps the header block in order.\<close>

definition extends :: "env \<Rightarrow> string \<Rightarrow> state \<Rightarrow> state \<Rightarrow> bool" where
  "extends e model st st' =
     ((header_ok e model st \<longrightarrow> header_ok e model st')
      \<and> (hasStartedStreaming st \<longrightarrow> hasStartedStreaming st')
      \<and> (\<exists>events. w_log (raw st') = w_log (raw st) @ events))"

text \<open>A state in which nothing of the header block has been attempted.\<close>

definition fresh :: "state \<Rightarrow> bool" where
  "fresh st =
     (\<not> isSucceeded st \<and> \<not> hasStartedStreaming st \<and> \<not> isStreamingStarted st
      \<and> \<not> connectionClosed st \<and> writable (raw st))"

subsection \<open>Accumulator keys\<close>

text \<open>Every index has one entry in the accumulators.\<close>

definition keys_distinct :: "state \<Rightarrow> bool" where
  "keys_distinct st = distinct (map fst (toolCallAccumulators st))"

subsection \<open>The frames of a stream\<close>

text \<open>
  The text of the line that line 484 keeps when what the \<^verbatim>\<open>try\<close> block threw for a
  frame looks like a truncation. The block throws the \<^verbatim>\<open>message\<close> of the frame's
  \<^verbatim>\<open>error\<close>; the messages of the type errors of lines 415 and 420 never look like one.
\<close>

definition pending_after :: "frame \<Rightarrow> string \<Rightarrow> string" where
  "pending_after parsed dataStr =
     (case f_error parsed of
        None \<Rightarrow> []
      | Some msg \<Rightarrow> (if looks_truncated msg then dataStr else []))"

text \<open>
  The frames \<^verbatim>\<open>JSON.parse\<close> gives to the loop of lines 336 to 490 over the lines of a
  stream while the connection stays open, in order: lines that are not data lines are
  skipped, \<open>pending\<close> is the \<^verbatim>\<open>incompleteDataLine\<close> glued in front of the text of the
  next data line (lines 343 to 346), the sentinel ends the stream (line 348), and a text
  that does not parse is kept or dropped as lines 480 to 489 say.
\<close>

fun parsed_frames :: "env \<Rightarrow> string \<Rightarrow> string list \<Rightarrow> frame list" where
  "parsed_frames e pending [] = []"
| "parsed_frames e pending (line # rest) =
     (if \<not> is_data_line line then parsed_frames e pending rest
      else if pending @ strip_data (trim line) = ''[DONE]'' then []
      else (case parse e (pending @ strip_data (trim line)) of
              Inl msg \<Rightarrow>
                parsed_frames e
                  (if looks_truncated msg then pending @ strip_data (trim line) else []) rest
            | Inr None \<Rightarrow> parsed_frames e [] rest
            | Inr (Some parsed) \<Rightarrow>
                parsed # parsed_frames e
                           (pending_after parsed (pending @ strip_data (trim line))) rest))"

definition keep_alive_then_done :: "string list" where
  "keep_alive_then_done =
     ['': keep-alive'' @ [CHR 0x0A] @ ''data: [DO'', ''NE]'' @ [CHR 0x0A, CHR 0x0A]]"

text \<open>The \<^verbatim>\<open>tool_use\<close> items of an array content (line 108).\<close>

definition tool_uses :: "block list \<Rightarrow> block list" where
  "tool_uses items = filter (\<lambda>item. b_type item = ''tool_use'') items"

subsection \<open>Streams of tool calls\<close>














text \<open>A step that only adds to what was written, and no \<^verbatim>\<open>content_block_delta\<close> of the index.\<close>

definition no_delta :: "nat \<Rightarrow> state \<Rightarrow> state \<Rightarrow> bool" where
  "no_delta idx st st' =
     (\<exists>new. w_log (raw st') = w_log (raw st) @ new \<and> (\<forall>w \<in> set new. \<not> is_delta_at idx w))"


subsection \<open>Streams and the header block\<close>

text \<open>
  A frame that is the empty object, which bears no content, and a \<^verbatim>\<open>JSON.parse\<close> that
  knows its text besides the text of the example frame.
\<close>

definition empty_frame :: frame where
  "empty_frame = \<lparr>f_error = None, f_usage = None, f_delta = None\<rparr>"

definition empty_parse :: "string \<Rightarrow> string + frame option" where
  "empty_parse s = (if s = ''{}'' then Inr (Some empty_frame) else example_parse s)"

definition empty_env :: env where
  "empty_env = example_env\<lparr>parse := empty_parse\<rparr>"

text \<open>
  The reads of three streams: the empty object and the sentinel; a data line that holds an
  unterminated JSON string, then the example frame, which bears content, and the sentinel;
  the example frame and the sentinel.
\<close>

definition empty_then_done :: "string list" where
  "empty_then_done = [''data: {}'' @ [CHR 0x0A], ''data: [DONE]'' @ [CHR 0x0A]]"

definition broken_then_frame :: "string list" where
  \<open>broken_then_frame =
     [''data: "abc'' @ [CHR 0x0A], ''data: '' @ example_frame_text @ [CHR 0x0A],
      ''data: [DONE]'' @ [CHR 0x0A]]\<close>

definition frame_then_done :: "string list" where
  "frame_then_done =
     [''data: '' @ example_frame_text @ [CHR 0x0A], ''data: [DONE]'' @ [CHR 0x0A]]"

section \<open>Schema sanitizer: properties\<close>

text \<open>
  Claim C6 says that the sanitizer removes \<^verbatim>\<open>format\<close> from every sub-schema of type
  string and format uri at every nesting level, and that sanitizing twice is sanitizing
  once. The branch of line 141 returns the schema without its \<^verbatim>\<open>format\<close> and does not
  descend into it: on a string schema of format uri that holds another one under
  \<^verbatim>\<open>anyOf\<close>, the first pass keeps the inner \<^verbatim>\<open>format\<close>, the second pass removes it, and
  the two results differ.
\<close>

theorem removeUriFormat_not_idempotent:
  "removeUriFormat nested_uri_schema =
     JObj [(''type'', JStr ''string''),
           (''anyOf'', JArr [JObj [(''type'', JStr ''string''), (''format'', JStr ''uri'')]])]
   \<and> removeUriFormat (removeUriFormat nested_uri_schema) =
     JObj [(''type'', JStr ''string''), (''anyOf'', JArr [JObj [(''type'', JStr ''string'')]])]
   \<and> removeUriFormat (removeUriFormat nested_uri_schema) \<noteq> removeUriFormat nested_uri_schema"
  by (simp add: nested_uri_schema_def isArray_def typeof_object_def)

section \<open>Message id of the non-streaming translator\<close>

lemma replace_first_prefix:
  "p \<noteq> [] \<Longrightarrow> startsWith p s \<Longrightarrow> replace_first p r s = r @ drop (length p) s"
  by (cases s; cases p) auto

lemma replace_first_absent:
  "p \<noteq> [] \<Longrightarrow> \<not> js_includes p s \<Longrightarrow> replace_first p r s = s"
  by (induction s) auto

lemma translate_response_id:
  "translate_response e p data = Inr r \<Longrightarrow> ar_id r = message_id e (r_id data)"
  by (auto simp: translate_response_def Let_def split: option.splits list.splits sum.splits)

text \<open>
  Claim C7, as stated, fails: an upstream id that is present and lacks the prefix
  \<^verbatim>\<open>chatcmpl\<close> is not replaced by a fresh random id. The id \<^verbatim>\<open>gen-1\<close> comes out as
  \<^verbatim>\<open>gen-1\<close>.
\<close>

theorem message_id_no_prefix_counterexample:
  "\<not> startsWith ''chatcmpl'' ''gen-1''
   \<and> message_id example_env (Some ''gen-1'') = ''gen-1''
   \<and> message_id example_env (Some ''gen-1'') \<noteq> ''msg_'' @ rnd example_env"
  by (simp add: message_id_def truthy_def example_env_def)

text \<open>
  Claim C7, amended. The id of a translated response is \<open>message_id\<close> of the upstream
  id. An id that starts with \<^verbatim>\<open>chatcmpl\<close> has that prefix rewritten to \<^verbatim>\<open>msg\<close>; a
  non-empty id in which \<^verbatim>\<open>chatcmpl\<close> does not occur is passed through unchanged; an
  absent or empty id gives \<^verbatim>\<open>msg_\<close> followed by the random suffix.
\<close>

theorem message_id_cases:
  "(translate_response e p data = Inr r \<longrightarrow> ar_id r = message_id e (r_id data))
   \<and> (startsWith ''chatcmpl'' i \<longrightarrow>
        message_id e (Some i) = ''msg'' @ drop (length ''chatcmpl'') i)
   \<and> (i \<noteq> [] \<and> \<not> js_includes ''chatcmpl'' i \<longrightarrow> message_id e (Some i) = i)
   \<and> message_id e (Some []) = ''msg_'' @ rnd e
   \<and> message_id e None = ''msg_'' @ rnd e"
proof -
  have a: "message_id e (Some i) = ''msg'' @ drop (length ''chatcmpl'') i"
    if h: "startsWith ''chatcmpl'' i"
  proof -
    from h have "i \<noteq> []" by (cases i) auto
    moreover from h
    have "replace_first ''chatcmpl'' ''msg'' i = ''msg'' @ drop (length ''chatcmpl'') i"
      by (intro replace_first_prefix) simp_all
    ultimately show ?thesis
      by (simp add: message_id_def truthy_def)
  qed
  have b: "message_id e (Some i) = i" if "i \<noteq> []" and "\<not> js_includes ''chatcmpl'' i"
    using that replace_first_absent [of "''chatcmpl''" i "''msg''"]
    by (simp add: message_id_def truthy_def)
  show ?thesis
    using a b translate_response_id [of e p data r] by (simp add: message_id_def truthy_def)
qed

theorem message_id_cases_witness:
  "startsWith ''chatcmpl'' ''chatcmpl-1''
   \<and> message_id example_env (Some ''chatcmpl-1'') = ''msg-1''
   \<and> ''gen-1'' \<noteq> [] \<and> \<not> js_includes ''chatcmpl'' ''gen-1''
   \<and> message_id example_env (Some ''gen-1'') = ''gen-1''
   \<and> (\<exists>r. translate_response example_env (build_payload example_config example_payload)
              example_response = Inr r
            \<and> ar_id r = ''msg-1'' \<and> ar_stop_reason r = ''end_turn''
            \<and> ar_content r = [RText (TextContent ''hello'')])"
proof -
  have t: "translate_response example_env (build_payload example_config example_payload)
             example_response =
           Inr \<lparr>ar_content = [RText (TextContent ''hello'')], ar_id = ''msg-1'', ar_model = ''kimi-c'',
                ar_role = Some ''assistant'', ar_stop_reason = ''end_turn'',
                ar_input_tokens = Some 1, ar_output_tokens = Some 1\<rparr>"
    by (simp add: translate_response_def example_response_def build_payload_def
        example_payload_def example_config_def build_messages_def translate_message_def
        normalizeContent_def truthy_def content_items_def build_tools_def mapStopReason_def
        message_id_def example_env_def content_words_def word_count_def Let_def)
  show ?thesis
    using message_id_cases [of example_env "build_payload example_config example_payload"
        example_response _ "''chatcmpl-1''"]
      message_id_cases [of example_env "build_payload example_config example_payload"
        example_response _ "''gen-1''"] t
    by simp
qed

section \<open>The sentinel as first data line\<close>

lemma skip_non_data:
  "\<not> is_data_line line \<Longrightarrow> handle_line e model st line = (Continue, st)"
  by (auto simp: handle_line_def is_data_line_def Let_def)

lemma process_non_data:
  "\<forall>l \<in> set pre. \<not> is_data_line l \<Longrightarrow> \<not> connectionClosed st \<Longrightarrow>
   process_lines e model st (pre @ rest) = process_lines e model st rest"
  by (induction pre) (auto simp: skip_non_data)

lemma word_count_empty: "word_count [] = 1"
  by (simp add: word_count_def)

lemma done_branch_init:
  "w_log (raw (done_branch init_state)) =
     [Write (MessageDelta ''end_turn'' (Some 2)), Write MessageStop, End]"
  by (simp add: done_branch_def init_state_def init_writer_def emit_def sendSSE_def raw_end_def
      word_count_empty Let_def)

text \<open>The same on the lines of the stream, from the initial state.\<close>

lemma sentinel_first_lines:
  assumes "\<forall>l \<in> set pre. \<not> is_data_line l"
    and "is_data_line line"
    and "strip_data (trim line) = ''[DONE]''"
  shows "process_lines e model init_state (pre @ line # rest) = (True, done_branch init_state)
         \<and> w_log (raw (done_branch init_state)) =
             [Write (MessageDelta ''end_turn'' (Some 2)), Write MessageStop, End]
         \<and> writableEnded (raw (done_branch init_state))
         \<and> \<not> hasStartedStreaming (done_branch init_state)"
proof -
  have nc: "\<not> connectionClosed init_state" by (simp add: init_state_def)
  have inc: "incompleteDataLine init_state = []" by (simp add: init_state_def)
  from assms(2,3) inc
  have "handle_line e model init_state line = (Return, done_branch init_state)"
    by (simp add: handle_line_def is_data_line_def Let_def)
  with nc have "process_lines e model init_state (line # rest) = (True, done_branch init_state)"
    by simp
  with assms(1) nc
  have "process_lines e model init_state (pre @ line # rest) = (True, done_branch init_state)"
    by (simp add: process_non_data)
  moreover have "writableEnded (raw (done_branch init_state))
                 \<and> \<not> hasStartedStreaming (done_branch init_state)"
    by (simp add: done_branch_def init_state_def init_writer_def emit_def sendSSE_def
        raw_end_def Let_def)
  ultimately show ?thesis using done_branch_init by simp
qed

section \<open>Error responses\<close>

text \<open>
  Claim C8. A response that is not \<^verbatim>\<open>ok\<close> is answered with the upstream status and
  \<^verbatim>\<open>{ error: <upstream body text> }\<close> when \<^verbatim>\<open>reply.sent\<close> is false and the
  connection has not closed, and with nothing otherwise; once streaming has started or the
  connection has closed, neither the branch of line 201 nor the \<^verbatim>\<open>catch\<close> block writes an
  error response; whatever the \<^verbatim>\<open>try\<close> block throws is answered with status 500 and
  \<^verbatim>\<open>{ error: <message> }\<close> when nothing has been sent, streaming has not started and the
  connection has not closed.
\<close>

theorem error_responses:
  "(\<not> up_ok up \<longrightarrow>
      handler e cfg p gone (Fetched up) =
        (if \<not> replySent e \<and> \<not> gone then Replied (up_status up) (ErrorBody (up_text up))
         else NoReply,
         init_state\<lparr>connectionClosed := gone\<rparr>))
   \<and> (hasStartedStreaming st \<or> connectionClosed st \<longrightarrow>
        not_ok_branch e st up = NoReply \<and> catch_block e st msg = NoReply)
   \<and> (try_block e cfg p gone fr = (Inl msg, st) \<longrightarrow>
        handler e cfg p gone fr =
          (if \<not> replySent e \<and> \<not> hasStartedStreaming st \<and> \<not> connectionClosed st
           then Replied 500 (ErrorBody msg) else NoReply,
           st))"
  by (simp add: handler_def try_block_def not_ok_branch_def catch_block_def init_state_def)


theorem error_responses_witness:
  "\<not> up_ok rate_limited
   \<and> handler example_env example_config example_payload False (Fetched rate_limited) =
       (Replied 429 (ErrorBody ''rate limited''), init_state)
   \<and> handler example_env example_config example_payload True (Fetched rate_limited) =
       (NoReply, init_state\<lparr>connectionClosed := True\<rparr>)
   \<and> handler example_env example_config example_payload False (FetchRejected ''fetch failed'') =
       (Replied 500 (ErrorBody ''fetch failed''), init_state)
   \<and> fst (try_block example_env example_config streaming_payload False (Fetched broken_stream))
       = Inl ''terminated''
   \<and> fst (handler example_env example_config streaming_payload False (Fetched broken_stream))
       = NoReply"
proof -
  have r: "\<not> replySent example_env" by (simp add: example_env_def)
  have n: "\<not> up_ok rate_limited" "up_status rate_limited = 429"
    "up_text rate_limited = ''rate limited''"
    by (simp_all add: rate_limited_def)
  have i: "init_state\<lparr>connectionClosed := False\<rparr> = init_state" by (simp add: init_state_def)
  have f: "try_block example_env example_config example_payload False
             (FetchRejected ''fetch failed'') = (Inl ''fetch failed'', init_state)"
    by (simp add: try_block_def i)
  have g: "\<not> hasStartedStreaming init_state \<and> \<not> connectionClosed init_state"
    by (simp add: init_state_def)
  have b1: "fst (try_block example_env example_config streaming_payload False
             (Fetched broken_stream)) = Inl ''terminated''"
    by (simp add: stream_defs example_defs broken_stream_def Let_def)
  have b2: "hasStartedStreaming (snd (try_block example_env example_config streaming_payload
             False (Fetched broken_stream)))"
    by (simp add: stream_defs example_defs broken_stream_def Let_def)
  from b1 have b: "try_block example_env example_config streaming_payload False
             (Fetched broken_stream) = (Inl ''terminated'',
               snd (try_block example_env example_config streaming_payload False
                 (Fetched broken_stream)))"
    by (metis prod.collapse)
  show ?thesis
    using error_responses [of rate_limited example_env example_config example_payload False
        init_state "[]" "FetchRejected ''fetch failed''"]
      error_responses [of rate_limited example_env example_config example_payload True]
      error_responses [of rate_limited example_env example_config example_payload False
        init_state "''fetch failed''" "FetchRejected ''fetch failed''"]
      error_responses [of rate_limited example_env example_config streaming_payload False
        "snd (try_block example_env example_config streaming_payload False
                 (Fetched broken_stream))" "''terminated''" "Fetched broken_stream"]
      r n i f g b1 b2 b
    by simp
qed


section \<open>A request whose assistant message holds one tool call\<close>

lemma estimate_input_fails:
  "m \<in> set msgs \<Longrightarrow> om_content m = None \<Longrightarrow> \<exists>err. estimate_input acc msgs = Inl err"
proof (induction msgs arbitrary: acc)
  case Nil
  then show ?case by simp
next
  case (Cons a msgs)
  show ?case
  proof (cases "content_words (om_content a)")
    case (Inl err)
    then show ?thesis by simp
  next
    case (Inr n)
    with Cons.prems have "m \<in> set msgs" by (auto simp: content_words_def)
    with Cons.IH [OF this Cons.prems(2)] Inr show ?thesis by simp
  qed
qed

lemma translate_response_no_usage:
  assumes "m \<in> set (op_messages q)" and "om_content m = None" and "r_usage data = None"
  shows "\<exists>err. translate_response e q data = Inl err"
proof -
  from estimate_input_fails [OF assms(1,2)]
  obtain err where "estimate_input 0 (op_messages q) = Inl err" by blast
  with assms(3) show ?thesis
    by (auto simp: translate_response_def Let_def split: option.splits list.splits sum.splits)
qed

lemma tool_only_message:
  assumes "m_content msg = CArray [item]" and "b_type item = ''tool_use''"
    and "\<not> truthy (b_text item)"
  shows "translate_message msg =
           [\<lparr>om_role = m_role msg, om_content = None,
             om_tool_calls = Some [tool_call_of item], om_tool_call_id = None\<rparr>]"
  using assms
  by (auto simp: translate_message_def content_items_def normalizeContent_def item_text_def
      truthy_def Let_def split: option.splits)

text \<open>
  Claim C10. Take a request that is not streamed and has, among its messages, one whose
  content array holds a single \<^verbatim>\<open>tool_use\<close> block without text: the outbound message
  carries \<^verbatim>\<open>tool_calls\<close> and no \<^verbatim>\<open>content\<close>. When the upstream response has no
  \<^verbatim>\<open>usage\<close>, the handler answers with status 500 and an error body, whatever else the
  response holds.
\<close>

theorem tool_only_request_fails:
  assumes "p_messages p = Some msgs" and "msg \<in> set msgs"
    and "m_content msg = CArray [item]" and "b_type item = ''tool_use''"
    and "\<not> truthy (b_text item)"
    and "\<not> p_stream p" and "\<not> replySent e"
    and "up_ok up" and "up_json up = Inr data" and "r_usage data = None"
  shows "\<lparr>om_role = m_role msg, om_content = None,
           om_tool_calls = Some [tool_call_of item], om_tool_call_id = None\<rparr>
           \<in> set (op_messages (build_payload cfg p))
         \<and> (\<exists>err. handler e cfg p False (Fetched up) = (Replied 500 (ErrorBody err), init_state))"
proof -
  let ?m = "\<lparr>om_role = m_role msg, om_content = None,
              om_tool_calls = Some [tool_call_of item], om_tool_call_id = None\<rparr>"
  from assms(3-5) have "translate_message msg = [?m]" by (rule tool_only_message)
  with assms(1,2) have mem: "?m \<in> set (op_messages (build_payload cfg p))"
    by (force simp: build_payload_def build_messages_def Let_def)
  have "om_content ?m = None" by simp
  from translate_response_no_usage [OF mem this assms(10)]
  obtain err where "translate_response e (build_payload cfg p) data = Inl err" by blast
  with assms(6-9) have "handler e cfg p False (Fetched up) = (Replied 500 (ErrorBody err), init_state)"
    by (simp add: handler_def try_block_def catch_block_def build_payload_def init_state_def Let_def)
  with mem show ?thesis by blast
qed


theorem tool_only_request_fails_witness:
  "handler example_env example_config tool_only_payload False (Fetched plain_upstream) =
     (Replied 500 (ErrorBody (cannot_read ''undefined'' ''split'')), init_state)
   \<and> r_usage example_response = None
   \<and> op_messages (build_payload example_config tool_only_payload) =
       [\<lparr>om_role = ''user'', om_content = Some (JStr ''list the files''), om_tool_calls = None,
         om_tool_call_id = None\<rparr>,
        \<lparr>om_role = ''assistant'', om_content = None,
         om_tool_calls = Some [\<lparr>otc_id = Some ''toolu_1'', otc_name = Some ''ls'',
                                 otc_arguments = Some (JObj [])\<rparr>],
         om_tool_call_id = None\<rparr>]"
proof -
  let ?item = "\<lparr>b_type = ''tool_use'', b_text = None, b_id = Some ''toolu_1'',
              b_name = Some ''ls'', b_input = Some (JObj []), b_tool_use_id = None,
              b_content = None\<rparr>"
  let ?msg = "\<lparr>m_role = ''assistant'', m_content = CArray [?item]\<rparr>"
  let ?msgs = "[\<lparr>m_role = ''user'', m_content = CString ''list the files''\<rparr>, ?msg]"
  have 1: "p_messages tool_only_payload = Some ?msgs" by (simp add: tool_only_payload_def)
  have 2: "?msg \<in> set ?msgs" by simp
  have 3: "m_content ?msg = CArray [?item]" by simp
  have 4: "b_type ?item = ''tool_use''" by simp
  have 5: "\<not> truthy (b_text ?item)" by (simp add: truthy_def)
  have 6: "\<not> p_stream tool_only_payload" by (simp add: tool_only_payload_def)
  have 7: "\<not> replySent example_env" by (simp add: example_env_def)
  have 8: "up_ok plain_upstream" by (simp add: plain_upstream_def)
  have 9: "up_json plain_upstream = Inr example_response" by (simp add: plain_upstream_def)
  have 10: "r_usage example_response = None" by (simp add: example_response_def)
  have m: "op_messages (build_payload example_config tool_only_payload) =
       [\<lparr>om_role = ''user'', om_content = Some (JStr ''list the files''), om_tool_calls = None,
         om_tool_call_id = None\<rparr>,
        \<lparr>om_role = ''assistant'', om_content = None,
         om_tool_calls = Some [\<lparr>otc_id = Some ''toolu_1'', otc_name = Some ''ls'',
                                 otc_arguments = Some (JObj [])\<rparr>],
         om_tool_call_id = None\<rparr>]"
    by (simp add: build_payload_def build_messages_def tool_only_payload_def
        translate_message_def content_items_def normalizeContent_def item_text_def truthy_def
        tool_call_of_def build_tools_def Let_def)
  have h: "handler example_env example_config tool_only_payload False (Fetched plain_upstream) =
     (Replied 500 (ErrorBody (cannot_read ''undefined'' ''split'')), init_state)"
  proof -
    have tr: "translate_response example_env (build_payload example_config tool_only_payload)
                example_response = Inl (cannot_read ''undefined'' ''split'')"
      by (simp add: translate_response_def m example_response_def content_words_def
          word_count_def Let_def)
    have ns: "\<not> op_stream (build_payload example_config tool_only_payload)"
      by (simp add: build_payload_def tool_only_payload_def Let_def)
    have i: "init_state\<lparr>connectionClosed := False\<rparr> = init_state"
      by (simp add: init_state_def)
    show ?thesis
      using tr ns i 7
      by (simp add: handler_def try_block_def catch_block_def plain_upstream_def Let_def
          init_state_def)
  qed
  show ?thesis
    using tool_only_request_fails [OF 1 2 3 4 5 6 7 8 9 10, of example_config] h m 10
    by simp
qed

section \<open>Tool results in the outbound message list\<close>

lemma build_messages_split:
  "p_messages p = Some (pre @ msg # post) \<Longrightarrow>
   build_messages p =
     build_messages (p\<lparr>p_messages := Some pre\<rparr>) @ translate_message msg
     @ concat (map translate_message post)"
  by (simp add: build_messages_def)

lemma text_free_results:
  "\<forall>item \<in> set items. b_type item = ''tool_result'' \<longrightarrow> \<not> truthy (b_text item) \<Longrightarrow>
   map item_text items = map other_text items"
  by (induction items) (auto simp: other_text_def item_text_def truthy_def split: option.splits)

text \<open>
  Claim C4, as stated, fails: the content of the originating message is the \<^verbatim>\<open>text\<close> of
  all its blocks joined, the \<^verbatim>\<open>tool_result\<close> blocks included. A \<^verbatim>\<open>tool_result\<close> block
  that carries its result under \<^verbatim>\<open>text\<close> (line 127 reads it there first) is sent as a
  \<^verbatim>\<open>tool\<close> message and is also the content of the message it came from.
\<close>

theorem tool_result_text_merged_counterexample:
  "translate_message tool_result_with_text =
     [\<lparr>om_role = ''user'', om_content = Some (JStr ''42''), om_tool_calls = None,
       om_tool_call_id = None\<rparr>,
      \<lparr>om_role = ''tool'', om_content = Some (JStr ''42''), om_tool_calls = None,
       om_tool_call_id = Some ''toolu_1''\<rparr>]"
  by (simp add: translate_message_def tool_result_with_text_def content_items_def
      normalizeContent_def item_text_def truthy_def tool_message_def Let_def)

lemma startsWith_append: "startsWith p (p @ s)"
  by (induction p) auto

lemma js_includes_prefix: "js_includes p (p @ s)"
proof (cases "p @ s")
  case Nil
  then show ?thesis by simp
next
  case (Cons c cs)
  have "startsWith p (p @ s)" by (rule startsWith_append)
  then show ?thesis unfolding Cons by simp
qed

lemma js_includes_suffix: "js_includes p s \<Longrightarrow> js_includes p (a @ s)"
  by (induction a) auto

lemma join_space_includes: "x \<in> set xs \<Longrightarrow> js_includes x (join_space xs)"
proof (induction xs rule: join_space.induct)
  case 1
  then show ?case by simp
next
  case (2 y)
  then show ?case using js_includes_prefix [of x "[]"] by simp
next
  case (3 a b bs)
  show ?case
  proof (cases "x = a")
    case True
    then show ?thesis using js_includes_prefix [of a "'' '' @ join_space (b # bs)"] by simp
  next
    case False
    with 3 have "js_includes x (join_space (b # bs))" by simp
    then have "js_includes x ((a @ '' '') @ join_space (b # bs))"
      by (rule js_includes_suffix)
    then show ?thesis by simp
  qed
qed

lemma translate_message_array:
  "m_content msg = CArray items \<Longrightarrow>
   translate_message msg =
     (if join_space (map item_text items) \<noteq> [] \<or> tool_uses items \<noteq> []
      then [\<lparr>om_role = m_role msg,
             om_content = (if join_space (map item_text items) \<noteq> []
                           then Some (JStr (join_space (map item_text items))) else None),
             om_tool_calls = (if tool_uses items \<noteq> []
                              then Some (map tool_call_of (tool_uses items)) else None),
             om_tool_call_id = None\<rparr>]
      else [])
     @ map tool_message (tool_results items)"
  by (simp add: translate_message_def tool_results_def tool_uses_def content_items_def
      normalizeContent_def truthy_def Let_def)

text \<open>
  Claim C4, amended. For a message with an array content, anywhere in the request, the
  outbound list is: what the earlier messages gave; then the entry of the message itself,
  which is there exactly when the \<^verbatim>\<open>text\<close> of its blocks joined by spaces is not empty
  or it has a \<^verbatim>\<open>tool_use\<close> block, with the message's role, that joined text as content
  (no content when it is empty), the tool calls of the \<^verbatim>\<open>tool_use\<close> blocks (none when
  there is no such block) and no \<^verbatim>\<open>tool_call_id\<close>; then one \<^verbatim>\<open>tool\<close> message for each
  of its \<^verbatim>\<open>tool_result\<close> blocks, in their order; then what the later messages give. Each
  \<^verbatim>\<open>tool\<close> message has the block's \<^verbatim>\<open>tool_use_id\<close> as \<^verbatim>\<open>tool_call_id\<close> and the
  block's \<^verbatim>\<open>text\<close>, or else its \<^verbatim>\<open>content\<close>, as content. The \<^verbatim>\<open>text\<close> of every block,
  a \<^verbatim>\<open>tool_result\<close> block included, occurs in the joined text; when no \<^verbatim>\<open>tool_result\<close>
  block has a non-empty \<^verbatim>\<open>text\<close>, the joined text is that of the other blocks, with an
  empty string in the place of each \<^verbatim>\<open>tool_result\<close> block.
\<close>

theorem tool_results_separate:
  assumes "p_messages p = Some (pre @ msg # post)" and "m_content msg = CArray items"
  shows "build_messages p =
           build_messages (p\<lparr>p_messages := Some pre\<rparr>)
           @ (if join_space (map item_text items) \<noteq> [] \<or> tool_uses items \<noteq> []
              then [\<lparr>om_role = m_role msg,
                     om_content = (if join_space (map item_text items) \<noteq> []
                                   then Some (JStr (join_space (map item_text items)))
                                   else None),
                     om_tool_calls = (if tool_uses items \<noteq> []
                                      then Some (map tool_call_of (tool_uses items))
                                      else None),
                     om_tool_call_id = None\<rparr>]
              else [])
           @ map tool_message (tool_results items)
           @ concat (map translate_message post)
         \<and> (\<forall>item \<in> set (tool_results items).
               om_role (tool_message item) = ''tool''
               \<and> om_tool_call_id (tool_message item) = b_tool_use_id item
               \<and> om_tool_calls (tool_message item) = None
               \<and> om_content (tool_message item) =
                   (if truthy (b_text item) then map_option JStr (b_text item)
                    else b_content item))
         \<and> (\<forall>item \<in> set items.
               js_includes (item_text item) (join_space (map item_text items)))
         \<and> ((\<forall>item \<in> set (tool_results items). \<not> truthy (b_text item))
              \<longrightarrow> join_space (map item_text items) = join_space (map other_text items))"
proof -
  have a: "build_messages p =
           build_messages (p\<lparr>p_messages := Some pre\<rparr>)
           @ (if join_space (map item_text items) \<noteq> [] \<or> tool_uses items \<noteq> []
              then [\<lparr>om_role = m_role msg,
                     om_content = (if join_space (map item_text items) \<noteq> []
                                   then Some (JStr (join_space (map item_text items)))
                                   else None),
                     om_tool_calls = (if tool_uses items \<noteq> []
                                      then Some (map tool_call_of (tool_uses items))
                                      else None),
                     om_tool_call_id = None\<rparr>]
              else [])
           @ map tool_message (tool_results items)
           @ concat (map translate_message post)"
    unfolding build_messages_split [OF assms(1)] translate_message_array [OF assms(2)]
    by simp
  have b: "\<forall>item \<in> set (tool_results items).
               om_role (tool_message item) = ''tool''
               \<and> om_tool_call_id (tool_message item) = b_tool_use_id item
               \<and> om_tool_calls (tool_message item) = None
               \<and> om_content (tool_message item) =
                   (if truthy (b_text item) then map_option JStr (b_text item)
                    else b_content item)"
    by (simp add: tool_message_def)
  have c: "\<forall>item \<in> set items.
               js_includes (item_text item) (join_space (map item_text items))"
    by (simp add: join_space_includes)
  have d: "join_space (map item_text items) = join_space (map other_text items)"
    if "\<forall>item \<in> set (tool_results items). \<not> truthy (b_text item)"
  proof -
    from that
    have "\<forall>item \<in> set items. b_type item = ''tool_result'' \<longrightarrow> \<not> truthy (b_text item)"
      by (simp add: tool_results_def)
    from text_free_results [OF this] show ?thesis by (rule arg_cong)
  qed
  from a b c d show ?thesis by blast
qed

theorem tool_results_separate_witness:
  "build_messages tool_round_trip =
     [\<lparr>om_role = ''assistant'', om_content = Some (JStr ''listing ''),
       om_tool_calls = Some [\<lparr>otc_id = Some ''toolu_1'', otc_name = Some ''ls'',
                               otc_arguments = Some (JObj [])\<rparr>],
       om_tool_call_id = None\<rparr>,
      \<lparr>om_role = ''user'', om_content = Some (JStr '' next''), om_tool_calls = None,
       om_tool_call_id = None\<rparr>,
      \<lparr>om_role = ''tool'', om_content = Some (JStr ''a.txt''), om_tool_calls = None,
       om_tool_call_id = Some ''toolu_1''\<rparr>]
   \<and> js_includes ''next'' '' next''"
proof -
  let ?a = "\<lparr>m_role = ''assistant'',
          m_content = CArray
            [\<lparr>b_type = ''text'', b_text = Some ''listing'', b_id = None, b_name = None,
              b_input = None, b_tool_use_id = None, b_content = None\<rparr>,
             \<lparr>b_type = ''tool_use'', b_text = None, b_id = Some ''toolu_1'',
              b_name = Some ''ls'', b_input = Some (JObj []), b_tool_use_id = None,
              b_content = None\<rparr>]\<rparr>"
  let ?r = "\<lparr>b_type = ''tool_result'', b_text = None, b_id = None, b_name = None,
              b_input = None, b_tool_use_id = Some ''toolu_1'',
              b_content = Some (JStr ''a.txt'')\<rparr>"
  let ?t = "\<lparr>b_type = ''text'', b_text = Some ''next'', b_id = None, b_name = None,
              b_input = None, b_tool_use_id = None, b_content = None\<rparr>"
  let ?u = "\<lparr>m_role = ''user'', m_content = CArray [?r, ?t]\<rparr>"
  have 1: "p_messages tool_round_trip = Some ([?a] @ ?u # [])"
    by (simp add: tool_round_trip_def)
  have 2: "m_content ?u = CArray [?r, ?t]" by simp
  have pre: "build_messages (tool_round_trip\<lparr>p_messages := Some [?a]\<rparr>) =
     [\<lparr>om_role = ''assistant'', om_content = Some (JStr ''listing ''),
       om_tool_calls = Some [\<lparr>otc_id = Some ''toolu_1'', otc_name = Some ''ls'',
                               otc_arguments = Some (JObj [])\<rparr>],
       om_tool_call_id = None\<rparr>]"
    by (simp add: build_messages_def tool_round_trip_def translate_message_def
        content_items_def normalizeContent_def item_text_def truthy_def tool_call_of_def
        Let_def)
  note t = tool_results_separate [OF 1 2]
  note t1 = t [THEN conjunct1]
  note t3 = t [THEN conjunct2, THEN conjunct2, THEN conjunct1]
  have e: "build_messages tool_round_trip =
     [\<lparr>om_role = ''assistant'', om_content = Some (JStr ''listing ''),
       om_tool_calls = Some [\<lparr>otc_id = Some ''toolu_1'', otc_name = Some ''ls'',
                               otc_arguments = Some (JObj [])\<rparr>],
       om_tool_call_id = None\<rparr>,
      \<lparr>om_role = ''user'', om_content = Some (JStr '' next''), om_tool_calls = None,
       om_tool_call_id = None\<rparr>,
      \<lparr>om_role = ''tool'', om_content = Some (JStr ''a.txt''), om_tool_calls = None,
       om_tool_call_id = Some ''toolu_1''\<rparr>]"
    by (simp add: t1 pre item_text_def tool_uses_def tool_results_def tool_message_def
        truthy_def)
  have "js_includes (item_text ?t) (join_space (map item_text [?r, ?t]))"
    using t3 by simp
  then have f: "js_includes ''next'' '' next''" by (simp add: item_text_def)
  from e f show ?thesis by simp
qed

section \<open>Writing to an open connection\<close>

lemma emit_writable:
  "writable (raw st) \<Longrightarrow>
   emit st ev = st\<lparr>raw := (raw st)\<lparr>w_log := w_log (raw st) @ [Write ev]\<rparr>\<rparr>"
  by (simp add: emit_def sendSSE_def writable_def)

lemma writable_log [simp]: "writable (w\<lparr>w_log := l\<rparr>) = writable w"
  by (simp add: writable_def)

lemma stop_tool_blocks_writable:
  "\<not> connectionClosed st \<Longrightarrow> writable (raw st) \<Longrightarrow>
   stop_tool_blocks st ks =
     st\<lparr>raw := (raw st)\<lparr>w_log := w_log (raw st) @ map (\<lambda>k. Write (ContentBlockStop k)) ks\<rparr>\<rparr>"
proof (induction ks arbitrary: st)
  case Nil
  then show ?case by simp
next
  case (Cons k ks)
  let ?st = "st\<lparr>raw := (raw st)\<lparr>w_log := w_log (raw st) @ [Write (ContentBlockStop k)]\<rparr>\<rparr>"
  from Cons.prems have e: "emit st (ContentBlockStop k) = ?st" by (simp add: emit_writable)
  from Cons.prems have "\<not> connectionClosed ?st" "writable (raw ?st)" by simp_all
  from Cons.IH [OF this] e Cons.prems show ?case by simp
qed

section \<open>The sentinel\<close>

text \<open>
  What the branch of the sentinel does when it is reached: when a data line is processed
  whose text is \<^verbatim>\<open>[DONE]\<close>, with no incomplete data line pending, the connection open
  and the writer writable, the handler returns at that line. What it writes is, in this
  order: when a tool call was seen, one \<^verbatim>\<open>content_block_stop\<close> for each index of the
  accumulators (each index once), and when none was seen, one \<^verbatim>\<open>content_block_stop\<close> of
  index 0 if the text block is open and nothing otherwise; one \<^verbatim>\<open>message_delta\<close> with
  stop reason \<^verbatim>\<open>tool_use\<close> if a tool call was seen and \<^verbatim>\<open>end_turn\<close> otherwise, whose
  output tokens are the completion tokens of the captured usage or else the word counts of
  the accumulated content and reasoning added up; one \<^verbatim>\<open>message_stop\<close>; the end of the
  response.
\<close>

lemma done_terminal:
  assumes "is_data_line line" and "strip_data (trim line) = ''[DONE]''"
    and "incompleteDataLine st = []"
    and "\<not> connectionClosed st" and "writable (raw st)"
    and "distinct (map fst (toolCallAccumulators st))"
  shows "process_lines e model st (line # rest) = (True, done_branch st)
         \<and> (\<forall>buf buf' chunk reads fin.
               process_chunk e model buf st chunk = (buf', True, done_branch st) \<longrightarrow>
               read_loop e model buf st ((False, chunk) # reads) fin =
                 (Returned, done_branch st))
         \<and> (\<exists>stops.
               w_log (raw (done_branch st)) =
                 w_log (raw st) @ map (\<lambda>k. Write (ContentBlockStop k)) stops
                 @ [Write (MessageDelta
                      (if encounteredToolCall st then ''tool_use'' else ''end_turn'')
                      (case usage st of
                         Some u \<Rightarrow> completion_tokens u
                       | None \<Rightarrow> Some (word_count (accumulatedContent st)
                                        + word_count (accumulatedReasoning st)))),
                    Write MessageStop, End]
               \<and> distinct stops
               \<and> (encounteredToolCall st \<longrightarrow> set stops = fst ` set (toolCallAccumulators st))
               \<and> (\<not> encounteredToolCall st \<longrightarrow>
                    stops = (if textBlockStarted st then [0] else [])))
         \<and> writableEnded (raw (done_branch st))"
proof -
  from assms(1-3) have "handle_line e model st line = (Return, done_branch st)"
    by (simp add: handle_line_def is_data_line_def Let_def)
  with assms(4) have a: "process_lines e model st (line # rest) = (True, done_branch st)"
    by simp
  have b: "\<forall>buf buf' chunk reads fin.
               process_chunk e model buf st chunk = (buf', True, done_branch st) \<longrightarrow>
               read_loop e model buf st ((False, chunk) # reads) fin =
                 (Returned, done_branch st)"
    using assms(4) by (cases st) simp
  let ?stops = "if encounteredToolCall st then for_in_keys (toolCallAccumulators st)
                else if textBlockStarted st then [0] else []"
  let ?st1 = "st\<lparr>raw := (raw st)\<lparr>w_log := w_log (raw st)
                 @ map (\<lambda>k. Write (ContentBlockStop k)) ?stops\<rparr>\<rparr>"
  have s1: "(if encounteredToolCall st
                 then stop_tool_blocks st (for_in_keys (toolCallAccumulators st))
                 else if textBlockStarted st \<and> \<not> connectionClosed st
                 then emit st (ContentBlockStop 0)
                 else st) = ?st1"
    using assms(4,5) by (simp add: stop_tool_blocks_writable emit_writable)
  have w1: "writable (raw ?st1)" "\<not> connectionClosed ?st1" using assms(4,5) by simp_all
  have c: "w_log (raw (done_branch st)) =
                 w_log (raw st) @ map (\<lambda>k. Write (ContentBlockStop k)) ?stops
                 @ [Write (MessageDelta
                      (if encounteredToolCall st then ''tool_use'' else ''end_turn'')
                      (case usage st of
                         Some u \<Rightarrow> completion_tokens u
                       | None \<Rightarrow> Some (word_count (accumulatedContent st)
                                        + word_count (accumulatedReasoning st)))),
                    Write MessageStop, End]"
    unfolding done_branch_def s1 Let_def using w1
    by (simp add: emit_writable raw_end_def split: option.split)
  have d: "writableEnded (raw (done_branch st))"
    unfolding done_branch_def s1 Let_def using w1
    by (simp add: emit_writable raw_end_def split: option.split)
  have f: "distinct ?stops" using assms(6) by (simp add: for_in_keys_def)
  have g: "encounteredToolCall st \<longrightarrow> set ?stops = fst ` set (toolCallAccumulators st)"
    by (simp add: for_in_keys_def)
  have h: "\<not> encounteredToolCall st \<longrightarrow> ?stops = (if textBlockStarted st then [0] else [])"
    by simp
  from c f g h
  have "\<exists>stops.
               w_log (raw (done_branch st)) =
                 w_log (raw st) @ map (\<lambda>k. Write (ContentBlockStop k)) stops
                 @ [Write (MessageDelta
                      (if encounteredToolCall st then ''tool_use'' else ''end_turn'')
                      (case usage st of
                         Some u \<Rightarrow> completion_tokens u
                       | None \<Rightarrow> Some (word_count (accumulatedContent st)
                                        + word_count (accumulatedReasoning st)))),
                    Write MessageStop, End]
               \<and> distinct stops
               \<and> (encounteredToolCall st \<longrightarrow> set stops = fst ` set (toolCallAccumulators st))
               \<and> (\<not> encounteredToolCall st \<longrightarrow>
                    stops = (if textBlockStarted st then [0] else []))"
    by blast
  with a b d show ?thesis by blast
qed

section \<open>Cutting the upstream text into reads\<close>

lemma split_on_not_Nil [simp]: "split_on sep s \<noteq> []"
  by (induction s) (auto split: list.splits)

lemma split_on_append:
  "split_on sep (a @ b) =
     butlast (split_on sep a) @ split_on sep (last (split_on sep a) @ b)"
proof (induction a)
  case Nil
  then show ?case by simp
next
  case (Cons c a)
  show ?case
  proof (cases "c = sep")
    case True
    with Cons show ?thesis by simp
  next
    case False
    obtain l ls where s: "split_on sep a = l # ls" by (cases "split_on sep a") auto
    show ?thesis
    proof (cases ls)
      case Nil
      with s False Cons show ?thesis
        by (cases "split_on sep (l @ b)") auto
    next
      case (Cons l' ls')
      with s False Cons.IH show ?thesis by simp
    qed
  qed
qed

lemma complete_lines_append:
  "complete_lines (a @ b) = complete_lines a @ complete_lines (remainder a @ b)"
  by (simp add: complete_lines_def remainder_def split_on_append [of _ a b] butlast_append)

lemma remainder_append: "remainder (a @ b) = remainder (remainder a @ b)"
  by (simp add: remainder_def split_on_append [of _ a b])

lemma split_on_no_sep: "sep \<notin> set s \<Longrightarrow> split_on sep s = [s]"
  by (induction s) auto

lemma remainder_no_newline: "CHR 0x0A \<notin> set (remainder s)"
proof (induction s)
  case Nil
  then show ?case by (simp add: remainder_def)
next
  case (Cons c s)
  then show ?case
    by (cases "split_on (CHR 0x0A) s") (auto simp: remainder_def split: if_splits)
qed

lemma complete_lines_no_newline: "CHR 0x0A \<notin> set s \<Longrightarrow> complete_lines s = []"
  by (simp add: complete_lines_def split_on_no_sep)

lemma remainder_idem: "CHR 0x0A \<notin> set s \<Longrightarrow> remainder s = s"
  by (simp add: remainder_def split_on_no_sep)

lemma handle_line_no_break:
  "\<not> connectionClosed st \<Longrightarrow> fst (handle_line e model st line) \<noteq> Break"
  by (simp add: handle_line_def Let_def split: prod.splits option.splits)

lemma process_lines_closed:
  "connectionClosed st \<Longrightarrow> process_lines e model st ls = (False, st)"
  by (cases ls) simp_all

lemma process_lines_append:
  "process_lines e model st (l1 @ l2) =
     (case process_lines e model st l1 of
        (True, s) \<Rightarrow> (True, s)
      | (False, s) \<Rightarrow> process_lines e model s l2)"
proof (induction l1 arbitrary: st)
  case Nil
  then show ?case by simp
next
  case (Cons l l1)
  show ?case
  proof (cases "connectionClosed st")
    case True
    then show ?thesis by (simp add: process_lines_closed)
  next
    case False
    obtain fl st' where h: "handle_line e model st l = (fl, st')"
      by (cases "handle_line e model st l")
    with handle_line_no_break [OF False, of e model l] have "fl \<noteq> Break" by simp
    with h False Cons [of st'] show ?thesis by (cases fl) simp_all
  qed
qed

lemma connection_open_update:
  "\<not> connectionClosed st \<Longrightarrow> st\<lparr>connectionClosed := False\<rparr> = st"
  by (cases st) simp

lemma read_loop_whole_text:
  "CHR 0x0A \<notin> set buf \<Longrightarrow>
   read_loop e model buf st (quiet_reads chunks) fin =
     whole_text e model buf st (concat chunks) fin"
proof (induction chunks arbitrary: buf st)
  case Nil
  then show ?case
    by (simp add: quiet_reads_def whole_text_def complete_lines_no_newline)
next
  case (Cons c cs)
  show ?case
  proof (cases "connectionClosed st")
    case True
    then show ?thesis by (simp add: quiet_reads_def whole_text_def)
  next
    case False
    let ?rem = "remainder (buf @ c)"
    obtain r s where p: "process_lines e model st (complete_lines (buf @ c)) = (r, s)"
      by (cases "process_lines e model st (complete_lines (buf @ c))")
    have lines: "complete_lines (buf @ c @ concat cs) =
                   complete_lines (buf @ c) @ complete_lines (?rem @ concat cs)"
      using complete_lines_append [of "buf @ c" "concat cs"] by simp
    have chunk: "process_chunk e model buf st c = (?rem, r, s)"
      using p by (simp add: process_chunk_def complete_lines_def remainder_def)
    show ?thesis
    proof (cases r)
      case True
      with False p chunk lines show ?thesis
        by (simp add: quiet_reads_def whole_text_def connection_open_update
            process_lines_append)
    next
      case r: False
      have ih: "read_loop e model ?rem s (quiet_reads cs) fin =
                  whole_text e model ?rem s (concat cs) fin"
        by (rule Cons.IH) (rule remainder_no_newline)
      have left: "read_loop e model buf st (quiet_reads (c # cs)) fin =
                    whole_text e model ?rem s (concat cs) fin"
        using False chunk r ih
        by (simp add: quiet_reads_def connection_open_update)
      have right: "whole_text e model buf st (concat (c # cs)) fin =
                     whole_text e model ?rem s (concat cs) fin"
        using False p r lines
        by (simp add: whole_text_def process_lines_append process_lines_closed)
      from left right show ?thesis by simp
    qed
  qed
qed

text \<open>
  Claim C3. Two sequences of reads that carry the same text, cut at different places, with
  no close event in between and the same end of the body, give the same result: the read
  loop leaves in the same way with the same state, and the handler hands back the same
  outcome and has written the same to \<^verbatim>\<open>reply.raw\<close>.
\<close>

theorem rechunking:
  assumes "concat chunks1 = concat chunks2"
  shows "read_loop e model [] st (quiet_reads chunks1) fin =
           read_loop e model [] st (quiet_reads chunks2) fin
         \<and> handler e cfg p gone (Fetched (up\<lparr>up_reads := quiet_reads chunks1\<rparr>)) =
           handler e cfg p gone (Fetched (up\<lparr>up_reads := quiet_reads chunks2\<rparr>))"
proof -
  have a: "read_loop e model [] st (quiet_reads chunks1) fin =
           read_loop e model [] st (quiet_reads chunks2) fin" for model st fin
    using assms by (simp add: read_loop_whole_text)
  then show ?thesis by (simp add: handler_def try_block_def not_ok_branch_def Let_def)
qed

theorem rechunking_witness:
  "concat split_frame_reads = concat whole_frame_reads
   \<and> split_frame_reads \<noteq> whole_frame_reads
   \<and> handler example_env example_config streaming_payload False
       (Fetched (open_stream\<lparr>up_reads := quiet_reads split_frame_reads\<rparr>)) =
     handler example_env example_config streaming_payload False
       (Fetched (open_stream\<lparr>up_reads := quiet_reads whole_frame_reads\<rparr>))
   \<and> w_log (raw (snd (handler example_env example_config streaming_payload False
       (Fetched (open_stream\<lparr>up_reads := quiet_reads whole_frame_reads\<rparr>))))) =
       [WriteHead 200 sse_headers, Write (MessageStart ''msg_k3x9'' ''kimi-c'' [] 0 0),
        Write Ping, Write (ContentBlockStart 0 (TextBlock [])),
        Write (ContentBlockDelta 0 (TextDelta ''hi'')), End]"
proof -
  have c: "concat split_frame_reads = concat whole_frame_reads"
    by (simp add: split_frame_reads_def whole_frame_reads_def example_frame_text_def)
  have d: "split_frame_reads \<noteq> whole_frame_reads"
    by (simp add: split_frame_reads_def whole_frame_reads_def)
  have l: "w_log (raw (snd (handler example_env example_config streaming_payload False
       (Fetched (open_stream\<lparr>up_reads := quiet_reads whole_frame_reads\<rparr>))))) =
       [WriteHead 200 sse_headers, Write (MessageStart ''msg_k3x9'' ''kimi-c'' [] 0 0),
        Write Ping, Write (ContentBlockStart 0 (TextBlock [])),
        Write (ContentBlockDelta 0 (TextDelta ''hi'')), End]"
    by (simp add: handler_def stream_defs example_defs open_stream_def quiet_reads_def
        whole_frame_reads_def raw_end_def Let_def)
  show ?thesis
    using rechunking [OF c, of example_env _ _ _ example_config streaming_payload False
        open_stream] c d l
    by simp
qed

section \<open>Tool-call arguments\<close>

lemma emitted_json_append [simp]:
  "emitted_json idx (a @ b) = emitted_json idx a @ emitted_json idx b"
  by (simp add: emitted_json_def)

lemma emitted_json_Nil [simp]: "emitted_json idx [] = []"
  by (simp add: emitted_json_def)

lemma emitted_json_Cons [simp]:
  "emitted_json idx (w # ws) = partial_json idx w @ emitted_json idx ws"
  by (simp add: emitted_json_def)











section \<open>The header block of a streamed response\<close>

lemma header_block_append [simp]:
  "header_block (a @ b) = header_block a @ header_block b"
  by (simp add: header_block_def)

lemma header_block_Nil [simp]: "header_block [] = []"
  by (simp add: header_block_def)

lemma header_block_Cons [simp]:
  "header_block (w # ws) = (if is_header_event w then w # header_block ws else header_block ws)"
  by (simp add: header_block_def)

lemma quiet_refl [simp]: "quiet st st"
  by (simp add: quiet_def)

lemma quiet_trans: "quiet a b \<Longrightarrow> quiet b c \<Longrightarrow> quiet a c"
  by (auto simp: quiet_def)

lemma quiet_extends: "quiet st st' \<Longrightarrow> extends e model st st'"
  by (auto simp: quiet_def extends_def header_ok_def)

lemma extends_refl [simp]: "extends e model st st"
  by (simp add: extends_def)

lemma extends_trans: "extends e model a b \<Longrightarrow> extends e model b c \<Longrightarrow> extends e model a c"
  by (auto simp: extends_def)

lemma quiet_emit:
  "\<not> is_header_event (Write ev) \<Longrightarrow> quiet st (emit st ev)"
  by (simp add: quiet_def emit_def sendSSE_def)

lemma quiet_stop_tool_blocks: "quiet st (stop_tool_blocks st ks)"
proof (induction ks arbitrary: st)
  case Nil
  then show ?case by simp
next
  case (Cons k ks)
  have "quiet st (emit st (ContentBlockStop k))" by (simp add: quiet_emit)
  from quiet_trans [OF this Cons [of "emit st (ContentBlockStop k)"]]
  show ?case by simp
qed

lemma quiet_done_branch: "quiet st (done_branch st)"
proof -
  define st1 where "st1 = (if encounteredToolCall st
                 then stop_tool_blocks st (for_in_keys (toolCallAccumulators st))
                 else if textBlockStarted st \<and> \<not> connectionClosed st
                 then emit st (ContentBlockStop 0)
                 else st)"
  have 1: "quiet st st1"
    by (simp add: st1_def quiet_stop_tool_blocks quiet_emit)
  have 2: "quiet st1 (done_branch st)"
    unfolding done_branch_def Let_def st1_def [symmetric]
    by (simp add: quiet_def emit_def sendSSE_def raw_end_def)
  from quiet_trans [OF 1 2] show ?thesis .
qed

lemma quiet_tool_call_step: "quiet st (snd (tool_call_step st tc))"
  by (simp add: tool_call_step_def quiet_def emit_def sendSSE_def Let_def
      split: option.splits)

lemma quiet_tool_calls_loop: "quiet st (snd (tool_calls_loop st tcs))"
proof (induction tcs arbitrary: st)
  case Nil
  then show ?case by simp
next
  case (Cons tc tcs)
  obtain err st' where s: "tool_call_step st tc = (err, st')"
    by (cases "tool_call_step st tc")
  with quiet_tool_call_step [of st tc] have 1: "quiet st st'" by simp
  from quiet_trans [OF 1 Cons [of st']] 1 s show ?case
    by (cases err) simp_all
qed

lemma quiet_handle_delta: "quiet st (snd (handle_delta st dl))"
proof (cases dl)
  case None
  then show ?thesis by (simp add: handle_delta_def)
next
  case (Some d)
  show ?thesis
  proof (cases "d_tool_calls d \<noteq> None \<and> \<not> connectionClosed st")
    case True
    with Some show ?thesis by (simp add: handle_delta_def quiet_tool_calls_loop)
  next
    case False
    with Some show ?thesis
      by (auto simp: handle_delta_def open_text_block_def quiet_def emit_def sendSSE_def
          Let_def)
  qed
qed

lemma extends_sendSuccessMessage: "extends e model st (sendSuccessMessage e model st)"
  by (auto simp: sendSuccessMessage_def extends_def header_ok_def full_header_def emit_def
      sendSSE_def Let_def)

lemma extends_handle_parsed: "extends e model st (snd (handle_parsed e model st parsed))"
proof (cases "f_error parsed")
  case (Some msg)
  then show ?thesis by (simp add: handle_parsed_def)
next
  case None
  define st1 where "st1 = (if \<not> isStreamingStarted st \<and> \<not> connectionClosed st
                           then sendSuccessMessage e model st else st)"
  define st2 where "st2 = (case f_usage parsed of None \<Rightarrow> st1
                           | Some u \<Rightarrow> st1\<lparr>usage := Some u\<rparr>)"
  have 1: "extends e model st st1" by (simp add: st1_def extends_sendSuccessMessage)
  have "quiet st1 st2" by (cases "f_usage parsed"; simp add: st2_def quiet_def)
  then have 2: "extends e model st1 st2" by (rule quiet_extends)
  have 3: "extends e model st2 (snd (handle_delta st2 (f_delta parsed)))"
    by (rule quiet_extends) (rule quiet_handle_delta)
  have h: "handle_parsed e model st parsed = handle_delta st2 (f_delta parsed)"
    unfolding handle_parsed_def Let_def st1_def st2_def using None by simp
  from extends_trans [OF extends_trans [OF 1 2] 3] h show ?thesis by simp
qed

lemma extends_try_body: "extends e model st (snd (try_body e model st dataStr))"
  by (simp add: try_body_def extends_handle_parsed split: sum.splits option.splits)

lemma extends_handle_line: "extends e model st (snd (handle_line e model st line))"
proof (cases "trim line = [] \<or> \<not> startsWith ''data:'' (trim line)")
  case True
  then show ?thesis by (auto simp: handle_line_def Let_def)
next
  case False
  define st1 where "st1 = (if incompleteDataLine st \<noteq> [] then st\<lparr>incompleteDataLine := []\<rparr>
                           else st)"
  define dataStr where "dataStr = (if incompleteDataLine st \<noteq> []
                                   then incompleteDataLine st @ strip_data (trim line)
                                   else strip_data (trim line))"
  have 1: "extends e model st st1"
    by (rule quiet_extends) (simp add: st1_def quiet_def)
  have 2: "extends e model st1 (done_branch st1)"
    by (rule quiet_extends) (rule quiet_done_branch)
  have 4: "extends e model s (s\<lparr>incompleteDataLine := v\<rparr>)" for s v
    by (rule quiet_extends) (simp add: quiet_def)
  obtain r s where t: "try_body e model st1 dataStr = (r, s)"
    by (cases "try_body e model st1 dataStr")
  with extends_try_body [of e model st1 dataStr] have 5: "extends e model st1 s" by simp
  have "extends e model st1 (snd (handle_line e model st line))"
    unfolding handle_line_def Let_def st1_def [symmetric] dataStr_def [symmetric]
    using False 2 5 t extends_trans [OF 5 4]
    by (cases r) simp_all
  from extends_trans [OF 1 this] show ?thesis .
qed

lemma extends_process_lines: "extends e model st (snd (process_lines e model st ls))"
proof (induction ls arbitrary: st)
  case Nil
  then show ?case by simp
next
  case (Cons l ls)
  obtain fl st' where h: "handle_line e model st l = (fl, st')"
    by (cases "handle_line e model st l")
  with extends_handle_line [of e model st l] have 1: "extends e model st st'" by simp
  from extends_trans [OF 1 Cons [of st']] 1 h show ?case
    by (cases fl) simp_all
qed

lemma extends_process_chunk:
  "extends e model st (snd (snd (process_chunk e model buf st chunk)))"
  by (simp add: process_chunk_def Let_def extends_process_lines)

lemma extends_connectionClosed: "extends e model st (st\<lparr>connectionClosed := g\<rparr>)"
  by (rule quiet_extends) (simp add: quiet_def)

lemma extends_read_loop: "extends e model st (snd (read_loop e model buf st reads fin))"
proof (induction reads arbitrary: buf st)
  case Nil
  then show ?case
    by (cases fin) (simp_all add: extends_connectionClosed)
next
  case (Cons rd reads)
  obtain g chunk where rd: "rd = (g, chunk)" by (cases rd)
  show ?case
  proof (cases "connectionClosed st")
    case True
    with rd show ?thesis by simp
  next
    case False
    show ?thesis
    proof (cases g)
      case True
      let ?st1 = "st\<lparr>connectionClosed := True\<rparr>"
      have "extends e model st ?st1" by (rule extends_connectionClosed)
      from extends_trans [OF this Cons [of ?st1 buf]] rd True False
      show ?thesis by simp
    next
      case g: False
      let ?st1 = "st\<lparr>connectionClosed := False\<rparr>"
      have 1: "extends e model st ?st1" by (rule extends_connectionClosed)
      obtain buf' r st2 where p: "process_chunk e model buf ?st1 chunk = (buf', r, st2)"
        by (cases "process_chunk e model buf ?st1 chunk") auto
      with extends_process_chunk [of e model ?st1 buf chunk]
      have 2: "extends e model ?st1 st2" by simp
      note 3 = extends_trans [OF 1 2]
      from rd g False p 3 extends_trans [OF 3 Cons [of st2 buf']]
      show ?thesis by (cases r) simp_all
    qed
  qed
qed

lemma header_ok_init: "header_ok e model (init_state\<lparr>connectionClosed := g\<rparr>)"
  by (simp add: header_ok_def init_state_def init_writer_def)

lemma header_ok_handler:
  "header_ok e (op_model (build_payload cfg p)) (snd (handler e cfg p gone fr))"
proof -
  let ?m = "op_model (build_payload cfg p)"
  let ?st = "init_state\<lparr>connectionClosed := gone\<rparr>"
  have i: "header_ok e ?m ?st" by (rule header_ok_init)
  have e: "header_ok e ?m s \<Longrightarrow> header_ok e ?m (s\<lparr>raw := raw_end (raw s)\<rparr>)" for s
    by (simp add: header_ok_def raw_end_def)
  show ?thesis
  proof (cases fr)
    case (FetchRejected msg)
    with i show ?thesis by (simp add: handler_def try_block_def Let_def)
  next
    case (Fetched up)
    obtain x s where r: "read_loop e ?m [] ?st (up_reads up) (up_ending up) = (x, s)"
      by (cases "read_loop e ?m [] ?st (up_reads up) (up_ending up)")
    with extends_read_loop [of e ?m ?st "[]" "up_reads up" "up_ending up"] i
    have "header_ok e ?m s" by (simp add: extends_def)
    with Fetched i e r show ?thesis
      by (cases x) (simp_all add: handler_def try_block_def Let_def split: sum.splits)
  qed
qed

lemma sendSuccessMessage_fresh:
  assumes "fresh st" and "\<not> writeHeadThrows e" and "\<not> replySent e"
  shows "w_log (raw (sendSuccessMessage e model st)) = w_log (raw st) @ full_header e model"
    and "hasStartedStreaming (sendSuccessMessage e model st)"
    and "\<not> connectionClosed (sendSuccessMessage e model st)"
  using assms
  by (simp_all add: fresh_def sendSuccessMessage_def full_header_def emit_def sendSSE_def
      writable_def Let_def)

lemma first_frame_line:
  assumes "fresh st" and "\<not> writeHeadThrows e" and "\<not> replySent e"
    and "is_data_line line"
    and "incompleteDataLine st @ strip_data (trim line) \<noteq> ''[DONE]''"
    and "parse e (incompleteDataLine st @ strip_data (trim line)) = Inr (Some parsed)"
    and "f_error parsed = None"
  shows "fst (handle_line e model st line) = Continue
         \<and> hasStartedStreaming (snd (handle_line e model st line))
         \<and> (\<exists>events. w_log (raw (snd (handle_line e model st line))) =
                         w_log (raw st) @ full_header e model @ events
                       \<and> header_block events = [])"
proof -
  define st1 where "st1 = (if incompleteDataLine st \<noteq> [] then st\<lparr>incompleteDataLine := []\<rparr>
                           else st)"
  define dataStr where "dataStr = incompleteDataLine st @ strip_data (trim line)"
  have d: "(if incompleteDataLine st \<noteq> []
            then incompleteDataLine st @ strip_data (trim line)
            else strip_data (trim line)) = dataStr"
    by (simp add: dataStr_def)
  from assms(1) have f1: "fresh st1" and l1: "w_log (raw st1) = w_log (raw st)"
    by (simp_all add: st1_def fresh_def)
  define sa where "sa = sendSuccessMessage e model st1"
  from sendSuccessMessage_fresh [OF f1 assms(2,3), of model]
  have sa: "w_log (raw sa) = w_log (raw st) @ full_header e model"
    "hasStartedStreaming sa" "\<not> connectionClosed sa"
    by (simp_all add: sa_def l1)
  define st2 where "st2 = (case f_usage parsed of None \<Rightarrow> sa | Some u \<Rightarrow> sa\<lparr>usage := Some u\<rparr>)"
  have q1: "quiet sa st2" by (cases "f_usage parsed"; simp add: st2_def quiet_def)
  obtain r s where hd: "handle_delta st2 (f_delta parsed) = (r, s)"
    by (cases "handle_delta st2 (f_delta parsed)")
  with quiet_handle_delta [of st2 "f_delta parsed"] have q2: "quiet st2 s" by simp
  from f1 have fl: "\<not> isStreamingStarted st1" "\<not> connectionClosed st1"
    by (simp_all add: fresh_def)
  have hp: "handle_parsed e model st1 parsed = (r, s)"
    unfolding handle_parsed_def Let_def using assms(7) fl hd [unfolded st2_def sa_def]
    by simp
  have tb: "try_body e model st1 dataStr = (r, s)"
    using assms(6) hp by (simp add: try_body_def dataStr_def)
  define res where "res = snd (handle_line e model st line)"
  have hl: "handle_line e model st line =
              (Continue, case r of None \<Rightarrow> s
                         | Some msg \<Rightarrow> if looks_truncated msg
                                        then s\<lparr>incompleteDataLine := dataStr\<rparr> else s)"
    unfolding handle_line_def Let_def d st1_def [symmetric]
    using assms(4,5) fl tb
    by (cases r) (simp_all add: is_data_line_def dataStr_def)
  have q3: "quiet s (snd (handle_line e model st line))"
    by (cases r) (simp_all add: hl quiet_def)
  from quiet_trans [OF quiet_trans [OF q1 q2] q3] sa hl
  show ?thesis by (auto simp: quiet_def)
qed

lemma first_frame_lines:
  assumes "fresh st" and "header_ok e model st"
    and "\<not> writeHeadThrows e" and "\<not> replySent e"
    and "is_data_line line"
    and "incompleteDataLine st @ strip_data (trim line) \<noteq> ''[DONE]''"
    and "parse e (incompleteDataLine st @ strip_data (trim line)) = Inr (Some parsed)"
    and "f_error parsed = None"
  shows "\<exists>events. w_log (raw (snd (process_lines e model st (line # rest)))) =
                    w_log (raw st) @ full_header e model @ events
                  \<and> header_block events = []"
proof -
  from assms(1,2) have h0: "header_block (w_log (raw st)) = []"
    by (simp add: fresh_def header_ok_def)
  from assms(1) have o: "\<not> connectionClosed st" by (simp add: fresh_def)
  obtain fl sa where hl: "handle_line e model st line = (fl, sa)"
    by (cases "handle_line e model st line")
  from first_frame_line [OF assms(1,3-8), of model] hl
  obtain ev1 where a: "fl = Continue"
    "w_log (raw sa) = w_log (raw st) @ full_header e model @ ev1" "header_block ev1 = []"
    by auto
  from extends_handle_line [of e model st line] hl assms(2)
  have oka: "header_ok e model sa" by (simp add: extends_def)
  let ?fin = "snd (process_lines e model sa rest)"
  from extends_process_lines [of e model sa rest] oka
  obtain ev2 where b: "header_ok e model ?fin" "w_log (raw ?fin) = w_log (raw sa) @ ev2"
    by (auto simp: extends_def)
  have fh: "header_block (full_header e model) = full_header e model"
    by (simp add: full_header_def)
  from b a h0 fh
  have "full_header e model @ header_block ev2
          \<in> set [[], [WriteHead 200 sse_headers], full_header e model]"
    by (simp add: header_ok_def)
  then have c: "header_block ev2 = []" by (auto simp: full_header_def)
  have "process_lines e model st (line # rest) = process_lines e model sa rest"
    using o hl a(1) by simp
  with a b c show ?thesis by simp
qed

section \<open>The accumulators of a reachable state\<close>

text \<open>
  Line 408 and line 432 assign to the entry of one index, so the indices of the
  accumulators stay distinct from the initial state on: the hypothesis of the lemma on
  the branch of the sentinel holds in every state the read loop reaches.
\<close>

lemma keys_emit [simp]: "keys_distinct (emit st ev) = keys_distinct st"
  by (simp add: keys_distinct_def emit_def)

lemma keys_sendSuccessMessage [simp]:
  "keys_distinct (sendSuccessMessage e model st) = keys_distinct st"
  by (simp add: keys_distinct_def sendSuccessMessage_def emit_def Let_def)

lemma keys_stop_tool_blocks [simp]: "keys_distinct (stop_tool_blocks st ks) = keys_distinct st"
  by (induction ks arbitrary: st) simp_all

lemma keys_done_branch [simp]: "keys_distinct (done_branch st) = keys_distinct st"
proof -
  have "keys_distinct (s\<lparr>raw := w\<rparr>) = keys_distinct s" for s w
    by (simp add: keys_distinct_def)
  then show ?thesis by (simp add: done_branch_def Let_def)
qed

lemma keys_tool_call_step:
  "keys_distinct st \<Longrightarrow> keys_distinct (snd (tool_call_step st tc))"
  by (simp add: tool_call_step_def keys_distinct_def emit_def distinct_update Let_def
      split: option.splits)

lemma keys_tool_calls_loop:
  "keys_distinct st \<Longrightarrow> keys_distinct (snd (tool_calls_loop st tcs))"
proof (induction tcs arbitrary: st)
  case Nil
  then show ?case by simp
next
  case (Cons tc tcs)
  obtain err st' where s: "tool_call_step st tc = (err, st')"
    by (cases "tool_call_step st tc")
  with keys_tool_call_step [OF Cons.prems, of tc] have "keys_distinct st'" by simp
  with Cons.IH [of st'] Cons.prems s show ?case by (cases err) simp_all
qed

lemma keys_handle_delta:
  "keys_distinct st \<Longrightarrow> keys_distinct (snd (handle_delta st dl))"
proof (cases dl)
  case None
  assume "keys_distinct st"
  with None show ?thesis by (simp add: handle_delta_def)
next
  case (Some d)
  assume k: "keys_distinct st"
  have u: "keys_distinct (s\<lparr>accumulatedContent := v\<rparr>) = keys_distinct s"
    "keys_distinct (s\<lparr>accumulatedReasoning := v\<rparr>) = keys_distinct s"
    "keys_distinct (s\<lparr>textBlockStarted := b\<rparr>) = keys_distinct s" for s v b
    by (simp_all add: keys_distinct_def)
  from Some k keys_tool_calls_loop [OF k] show ?thesis
    by (simp add: handle_delta_def open_text_block_def u Let_def)
qed

lemma keys_handle_parsed:
  "keys_distinct st \<Longrightarrow> keys_distinct (snd (handle_parsed e model st parsed))"
proof -
  assume k: "keys_distinct st"
  have u: "keys_distinct (s\<lparr>usage := v\<rparr>) = keys_distinct s" for s v
    by (simp add: keys_distinct_def)
  from k show ?thesis
    by (auto simp: handle_parsed_def u Let_def intro: keys_handle_delta
        split: option.splits)
qed

lemma keys_try_body:
  "keys_distinct st \<Longrightarrow> keys_distinct (snd (try_body e model st dataStr))"
  by (simp add: try_body_def keys_handle_parsed split: sum.splits option.splits)

lemma keys_handle_line:
  assumes "keys_distinct st"
  shows "keys_distinct (snd (handle_line e model st line))"
proof (cases "trim line = [] \<or> \<not> startsWith ''data:'' (trim line)")
  case True
  with assms show ?thesis by (auto simp: handle_line_def Let_def)
next
  case False
  have u: "keys_distinct (s\<lparr>incompleteDataLine := v\<rparr>) = keys_distinct s" for s v
    by (simp add: keys_distinct_def)
  define st1 where "st1 = (if incompleteDataLine st \<noteq> [] then st\<lparr>incompleteDataLine := []\<rparr>
                           else st)"
  define dataStr where "dataStr = (if incompleteDataLine st \<noteq> []
                                   then incompleteDataLine st @ strip_data (trim line)
                                   else strip_data (trim line))"
  from assms have k1: "keys_distinct st1" by (simp add: st1_def u)
  obtain r s where t: "try_body e model st1 dataStr = (r, s)"
    by (cases "try_body e model st1 dataStr")
  with keys_try_body [OF k1, of e model dataStr] have k2: "keys_distinct s" by simp
  show ?thesis
    unfolding handle_line_def Let_def st1_def [symmetric] dataStr_def [symmetric]
    using False k1 k2 t
    by (cases r) (simp_all add: u)
qed

lemma keys_process_lines:
  "keys_distinct st \<Longrightarrow> keys_distinct (snd (process_lines e model st ls))"
proof (induction ls arbitrary: st)
  case Nil
  then show ?case by simp
next
  case (Cons l ls)
  obtain fl st' where h: "handle_line e model st l = (fl, st')"
    by (cases "handle_line e model st l")
  with keys_handle_line [OF Cons.prems, of e model l] have "keys_distinct st'" by simp
  with Cons.IH [of st'] Cons.prems h show ?case by (cases fl) simp_all
qed

lemma keys_read_loop:
  "keys_distinct st \<Longrightarrow> keys_distinct (snd (read_loop e model buf st reads fin))"
proof (induction reads arbitrary: buf st)
  case Nil
  then show ?case by (cases fin) (simp_all add: keys_distinct_def)
next
  case (Cons rd reads)
  obtain g chunk where rd: "rd = (g, chunk)" by (cases rd)
  let ?st1 = "st\<lparr>connectionClosed := g\<rparr>"
  from Cons.prems have k1: "keys_distinct ?st1" by (simp add: keys_distinct_def)
  obtain r st2 where p: "process_lines e model ?st1 (complete_lines (buf @ chunk)) = (r, st2)"
    by (cases "process_lines e model ?st1 (complete_lines (buf @ chunk))")
  with keys_process_lines [OF k1, of e model "complete_lines (buf @ chunk)"]
  have k2: "keys_distinct st2" by simp
  have c: "process_chunk e model buf ?st1 chunk = (remainder (buf @ chunk), r, st2)"
    using p by (simp add: process_chunk_def complete_lines_def remainder_def)
  show ?case
  proof (cases "connectionClosed st")
    case True
    with rd Cons.prems show ?thesis by simp
  next
    case False
    show ?thesis
    proof (cases g)
      case True
      with rd False k1 Cons.IH [of ?st1 buf] show ?thesis by simp
    next
      case g: False
      with rd False c k2 Cons.IH [of st2 "remainder (buf @ chunk)"]
      show ?thesis by (cases r) simp_all
    qed
  qed
qed

lemma keys_init: "keys_distinct (init_state\<lparr>connectionClosed := g\<rparr>)"
  by (simp add: keys_distinct_def init_state_def)

section \<open>One line of the stream\<close>

lemma clear_pending: "(if incompleteDataLine st \<noteq> [] then st\<lparr>incompleteDataLine := []\<rparr> else st)
                      = st\<lparr>incompleteDataLine := []\<rparr>"
  by (cases st) simp

lemma glued_text:
  "(if incompleteDataLine st \<noteq> [] then incompleteDataLine st @ x else x)
   = incompleteDataLine st @ x"
  by simp

text \<open>Nothing in lines 390 to 477 assigns \<^verbatim>\<open>incompleteDataLine\<close>.\<close>

lemma pending_emit [simp]: "incompleteDataLine (emit st ev) = incompleteDataLine st"
  by (simp add: emit_def)

lemma pending_sendSuccessMessage [simp]:
  "incompleteDataLine (sendSuccessMessage e model st) = incompleteDataLine st"
  by (simp add: sendSuccessMessage_def emit_def Let_def)

lemma pending_tool_call_step [simp]:
  "incompleteDataLine (snd (tool_call_step st tc)) = incompleteDataLine st"
  by (simp add: tool_call_step_def emit_def Let_def split: option.splits)

lemma pending_tool_calls_loop [simp]:
  "incompleteDataLine (snd (tool_calls_loop st tcs)) = incompleteDataLine st"
proof (induction tcs arbitrary: st)
  case Nil
  then show ?case by simp
next
  case (Cons tc tcs)
  obtain err st' where s: "tool_call_step st tc = (err, st')"
    by (cases "tool_call_step st tc")
  with pending_tool_call_step [of st tc]
  have "incompleteDataLine st' = incompleteDataLine st" by simp
  with Cons [of st'] s show ?case by (cases err) simp_all
qed

lemma pending_handle_delta [simp]:
  "incompleteDataLine (snd (handle_delta st dl)) = incompleteDataLine st"
  by (cases dl) (simp_all add: handle_delta_def open_text_block_def Let_def)

lemma pending_handle_parsed [simp]:
  "incompleteDataLine (snd (handle_parsed e model st parsed)) = incompleteDataLine st"
  by (simp add: handle_parsed_def Let_def split: option.splits)

text \<open>The type errors of the tool-call loop are not taken for truncations.\<close>

lemma type_errors_not_truncated:
  "\<not> looks_truncated (cannot_read ''undefined'' ''name'')"
  "\<not> looks_truncated (cannot_read ''undefined'' ''arguments'')"
  "\<not> looks_truncated (cannot_read ''null'' ''error'')"
  by (simp_all add: looks_truncated_def cannot_read_def)

lemma tool_call_step_error:
  "fst (tool_call_step st tc) = Some msg \<Longrightarrow> \<not> looks_truncated msg"
  by (auto simp: tool_call_step_def Let_def type_errors_not_truncated
      split: option.splits if_splits)

lemma tool_calls_loop_error:
  "fst (tool_calls_loop st tcs) = Some msg \<Longrightarrow> \<not> looks_truncated msg"
proof (induction tcs arbitrary: st)
  case Nil
  then show ?case by simp
next
  case (Cons tc tcs)
  obtain err st' where s: "tool_call_step st tc = (err, st')"
    by (cases "tool_call_step st tc")
  show ?case
  proof (cases err)
    case None
    with Cons.prems s Cons.IH [of st'] show ?thesis by (simp split: if_splits)
  next
    case (Some m)
    with Cons.prems s tool_call_step_error [of st tc m] show ?thesis
      by (simp split: if_splits)
  qed
qed

lemma handle_delta_error:
  "fst (handle_delta st dl) = Some msg \<Longrightarrow> \<not> looks_truncated msg"
  by (cases dl)
    (auto simp: handle_delta_def Let_def dest: tool_calls_loop_error split: if_splits)

lemma handle_parsed_error:
  "fst (handle_parsed e model st parsed) = Some msg \<Longrightarrow>
   f_error parsed = Some msg \<or> (f_error parsed = None \<and> \<not> looks_truncated msg)"
  by (cases "f_error parsed")
    (auto simp: handle_parsed_def Let_def dest: handle_delta_error)

text \<open>What one pass of the loop does with a line, case by case.\<close>

lemma handle_line_done:
  assumes "is_data_line line"
    and "incompleteDataLine st @ strip_data (trim line) = ''[DONE]''"
  shows "handle_line e model st line = (Return, done_branch (st\<lparr>incompleteDataLine := []\<rparr>))"
  using assms
  by (simp add: handle_line_def is_data_line_def Let_def clear_pending glued_text)

lemma handle_line_data:
  assumes "is_data_line line" and "\<not> connectionClosed st"
    and "incompleteDataLine st @ strip_data (trim line) = dataStr"
    and "dataStr \<noteq> ''[DONE]''"
    and "try_body e model (st\<lparr>incompleteDataLine := []\<rparr>) dataStr = (r, s)"
  shows "handle_line e model st line =
           (Continue, case r of None \<Rightarrow> s
                      | Some msg \<Rightarrow> if looks_truncated msg
                                     then s\<lparr>incompleteDataLine := dataStr\<rparr> else s)"
  using assms
  by (cases r)
    (simp_all add: handle_line_def is_data_line_def Let_def clear_pending glued_text)

lemma handle_line_unparsed:
  assumes "is_data_line line" and "\<not> connectionClosed st"
    and "incompleteDataLine st @ strip_data (trim line) = dataStr"
    and "dataStr \<noteq> ''[DONE]''"
    and "parse e dataStr = Inl msg"
  shows "handle_line e model st line =
           (Continue, st\<lparr>incompleteDataLine := (if looks_truncated msg then dataStr else [])\<rparr>)"
proof -
  have "try_body e model (st\<lparr>incompleteDataLine := []\<rparr>) dataStr
          = (Some msg, st\<lparr>incompleteDataLine := []\<rparr>)"
    using assms(5) by (simp add: try_body_def)
  from handle_line_data [OF assms(1-4) this] show ?thesis by simp
qed

lemma handle_line_null:
  assumes "is_data_line line" and "\<not> connectionClosed st"
    and "incompleteDataLine st @ strip_data (trim line) = dataStr"
    and "dataStr \<noteq> ''[DONE]''"
    and "parse e dataStr = Inr None"
  shows "handle_line e model st line = (Continue, st\<lparr>incompleteDataLine := []\<rparr>)"
proof -
  have "try_body e model (st\<lparr>incompleteDataLine := []\<rparr>) dataStr
          = (Some (cannot_read ''null'' ''error''), st\<lparr>incompleteDataLine := []\<rparr>)"
    using assms(5) by (simp add: try_body_def)
  from handle_line_data [OF assms(1-4) this] show ?thesis
    by (simp add: type_errors_not_truncated)
qed

lemma handle_line_frame:
  assumes "is_data_line line" and "\<not> connectionClosed st"
    and "incompleteDataLine st @ strip_data (trim line) = dataStr"
    and "dataStr \<noteq> ''[DONE]''"
    and "parse e dataStr = Inr (Some parsed)"
  shows "handle_line e model st line =
           (Continue,
            (snd (handle_parsed e model (st\<lparr>incompleteDataLine := []\<rparr>) parsed))
              \<lparr>incompleteDataLine := pending_after parsed dataStr\<rparr>)"
proof -
  let ?st1 = "st\<lparr>incompleteDataLine := []\<rparr>"
  obtain r s where h: "handle_parsed e model ?st1 parsed = (r, s)"
    by (cases "handle_parsed e model ?st1 parsed")
  with pending_handle_parsed [of e model ?st1 parsed]
  have i: "incompleteDataLine s = []" by simp
  then have same: "s\<lparr>incompleteDataLine := []\<rparr> = s" by (cases s) simp
  have tb: "try_body e model ?st1 dataStr = (r, s)"
    using assms(5) h by (simp add: try_body_def)
  note hl = handle_line_data [OF assms(1-4) tb]
  show ?thesis
  proof (cases r)
    case None
    from None h have "f_error parsed = None"
      by (cases "f_error parsed") (simp_all add: handle_parsed_def)
    with None hl h same show ?thesis by (simp add: pending_after_def)
  next
    case (Some msg)
    with h handle_parsed_error [of e model ?st1 parsed msg]
    have "f_error parsed = Some msg \<or> (f_error parsed = None \<and> \<not> looks_truncated msg)"
      by simp
    with Some hl h same show ?thesis by (auto simp: pending_after_def)
  qed
qed

section \<open>A streamed response as a whole\<close>

text \<open>
  A streamed request whose upstream response is \<^verbatim>\<open>ok\<close> and is read with no close
  event: the handler runs the line loop over the complete lines of the text, from the
  initial state; when the loop returns, the handler returns with that state, and
  otherwise it adds at most the end of the response to what was written.
\<close>

lemma init_state_open: "init_state\<lparr>connectionClosed := False\<rparr> = init_state"
  by (simp add: init_state_def)

lemma handler_stream_returned:
  assumes "p_stream p" and "up_ok up" and "up_reads up = quiet_reads chunks"
    and "process_lines e (op_model (build_payload cfg p)) init_state
           (complete_lines (concat chunks)) = (True, s)"
  shows "handler e cfg p False (Fetched up) = (NoReply, s)"
proof -
  have o: "\<not> connectionClosed init_state" by (simp add: init_state_def)
  have "read_loop e (op_model (build_payload cfg p)) [] init_state (up_reads up) (up_ending up)
          = (Returned, s)"
    using assms(3,4) o by (simp add: read_loop_whole_text whole_text_def)
  with assms(1,2) show ?thesis
    by (simp add: handler_def try_block_def build_payload_def init_state_open Let_def)
qed

lemma handler_stream_log:
  assumes "p_stream p" and "up_ok up" and "up_reads up = quiet_reads chunks"
  shows "\<exists>tail. w_log (raw (snd (handler e cfg p False (Fetched up)))) =
                  w_log (raw (snd (process_lines e (op_model (build_payload cfg p)) init_state
                                     (complete_lines (concat chunks))))) @ tail
                \<and> (tail = [] \<or> tail = [End])"
proof -
  let ?m = "op_model (build_payload cfg p)"
  obtain r s where pl: "process_lines e ?m init_state (complete_lines (concat chunks)) = (r, s)"
    by (cases "process_lines e ?m init_state (complete_lines (concat chunks))")
  show ?thesis
  proof (cases r)
    case True
    with handler_stream_returned [OF assms] pl show ?thesis by simp
  next
    case False
    have o: "\<not> connectionClosed init_state" by (simp add: init_state_def)
    have rl: "read_loop e ?m [] init_state (up_reads up) (up_ending up)
                = read_loop e ?m [] s [] (up_ending up)"
      using assms(3) pl False o by (simp add: read_loop_whole_text whole_text_def)
    have st: "op_stream (build_payload cfg p)"
      using assms(1) by (simp add: build_payload_def Let_def)
    show ?thesis
    proof (cases "connectionClosed s")
      case True
      with rl st assms(2) pl show ?thesis
        by (simp add: handler_def try_block_def init_state_open Let_def)
    next
      case op: False
      with rl st assms(2) pl show ?thesis
        by (cases "up_ending up")
          (auto simp: handler_def try_block_def init_state_open raw_end_def Let_def)
    qed
  qed
qed

section \<open>The sentinel as first data line of a stream\<close>

text \<open>
  Claim C9. Take a streamed request whose upstream response is \<^verbatim>\<open>ok\<close> and is read with
  no close event. When the first data line of its text is the sentinel, whatever lines
  that are not data lines stand before it, whatever lines follow it and however the text is
  cut into reads, the handler returns at that line; all it has written to the response is
  \<^verbatim>\<open>message_delta\<close> with stop reason \<^verbatim>\<open>end_turn\<close> and 2 output tokens, then
  \<^verbatim>\<open>message_stop\<close>, then the end of the response: no header block, no
  \<^verbatim>\<open>message_start\<close>, no \<^verbatim>\<open>ping\<close>.
\<close>

theorem done_first:
  assumes "p_stream p" and "up_ok up" and "up_reads up = quiet_reads chunks"
    and "complete_lines (concat chunks) = pre @ line # rest"
    and "\<forall>l \<in> set pre. \<not> is_data_line l"
    and "is_data_line line"
    and "strip_data (trim line) = ''[DONE]''"
  shows "handler e cfg p False (Fetched up) = (NoReply, done_branch init_state)
         \<and> w_log (raw (snd (handler e cfg p False (Fetched up)))) =
             [Write (MessageDelta ''end_turn'' (Some 2)), Write MessageStop, End]
         \<and> writableEnded (raw (snd (handler e cfg p False (Fetched up))))
         \<and> \<not> hasStartedStreaming (snd (handler e cfg p False (Fetched up)))"
proof -
  note l = sentinel_first_lines [OF assms(5-7), of e "op_model (build_payload cfg p)" rest]
  from l assms(4)
  have "process_lines e (op_model (build_payload cfg p)) init_state
          (complete_lines (concat chunks)) = (True, done_branch init_state)"
    by simp
  from handler_stream_returned [OF assms(1-3) this] l show ?thesis by simp
qed

theorem done_first_witness:
  "complete_lines (concat keep_alive_then_done) = ['': keep-alive''] @ ''data: [DONE]'' # [[]]
   \<and> \<not> is_data_line '': keep-alive''
   \<and> is_data_line ''data: [DONE]''
   \<and> strip_data (trim ''data: [DONE]'') = ''[DONE]''
   \<and> handler example_env example_config streaming_payload False
         (Fetched (open_stream\<lparr>up_reads := quiet_reads keep_alive_then_done\<rparr>)) =
       (NoReply, done_branch init_state)
   \<and> w_log (raw (snd (handler example_env example_config streaming_payload False
         (Fetched (open_stream\<lparr>up_reads := quiet_reads keep_alive_then_done\<rparr>))))) =
       [Write (MessageDelta ''end_turn'' (Some 2)), Write MessageStop, End]"
proof -
  have 1: "p_stream streaming_payload"
    by (simp add: streaming_payload_def example_payload_def)
  have 2: "up_ok (open_stream\<lparr>up_reads := quiet_reads keep_alive_then_done\<rparr>)"
    by (simp add: open_stream_def)
  have 3: "up_reads (open_stream\<lparr>up_reads := quiet_reads keep_alive_then_done\<rparr>)
             = quiet_reads keep_alive_then_done"
    by simp
  have 4: "complete_lines (concat keep_alive_then_done)
             = ['': keep-alive''] @ ''data: [DONE]'' # [[]]"
    by (simp add: keep_alive_then_done_def complete_lines_def)
  have 5: "\<forall>l \<in> set ['': keep-alive'']. \<not> is_data_line l"
    by (simp add: is_data_line_def trim_def is_space_def)
  have 6: "is_data_line ''data: [DONE]''"
    by (simp add: is_data_line_def trim_def is_space_def)
  have 7: "strip_data (trim ''data: [DONE]'') = ''[DONE]''"
    by (simp add: strip_data_def trim_def is_space_def)
  show ?thesis
    using done_first [OF 1 2 3 4 5 6 7, of example_env example_config] 4 5 6 7
    by (simp add: done_branch_init)
qed

section \<open>The sentinel after a data line that did not parse\<close>

text \<open>
  Claim C2 says that the sentinel is terminal regardless of the prior state: the open
  blocks are closed, \<^verbatim>\<open>message_delta\<close> and \<^verbatim>\<open>message_stop\<close> are written and the
  response is ended at that line. Line 343 puts a pending incomplete data line in front of
  the text of the next data line before line 348 compares it with \<^verbatim>\<open>[DONE]\<close>. On a
  stream that holds a data line with an unterminated JSON string and then the sentinel,
  the sentinel is not recognised: the handler writes neither \<^verbatim>\<open>message_delta\<close> nor
  \<^verbatim>\<open>message_stop\<close>, and all that reaches the response is its end, after the last read.
\<close>

theorem sentinel_after_broken_line:
  \<open>complete_lines (concat broken_then_done) = [''data: "abc'', ''data: [DONE]'', []]
   \<and> handler example_env example_config streaming_payload False
         (Fetched (open_stream\<lparr>up_reads := quiet_reads broken_then_done\<rparr>)) =
       (NoReply,
        init_state\<lparr>incompleteDataLine := ''"abc[DONE]'',
                   raw := init_writer\<lparr>w_log := [End], writableEnded := True\<rparr>\<rparr>)\<close>
  by (simp add: handler_def stream_defs example_defs open_stream_def quiet_reads_def
      broken_then_done_def complete_lines_def raw_end_def Let_def)

section \<open>Tool-call arguments over a stream\<close>



lemma no_delta_refl [simp]: "no_delta idx st st"
  by (simp add: no_delta_def)



lemma no_delta_pending [simp]:
  "no_delta idx a (b\<lparr>incompleteDataLine := v\<rparr>) = no_delta idx a b"
  "no_delta idx (a\<lparr>incompleteDataLine := v\<rparr>) b = no_delta idx a b"
  by (simp_all add: no_delta_def)









text \<open>
  The lines of a stream from a state that tracks an index: what is written for the index
  at the end is the last argument string received for it.
\<close>

lemma tracks_pending [simp]: "tracks idx (st\<lparr>incompleteDataLine := v\<rparr>) = tracks idx st"
  by (simp add: tracks_def)






section \<open>The header block over a stream\<close>

lemma fresh_pending [simp]: "fresh (st\<lparr>incompleteDataLine := v\<rparr>) = fresh st"
  by (simp add: fresh_def)

lemma header_ok_pending [simp]:
  "header_ok e model (st\<lparr>incompleteDataLine := v\<rparr>) = header_ok e model st"
  by (simp add: header_ok_def)

lemma quiet_pending [simp]:
  "quiet a (b\<lparr>incompleteDataLine := v\<rparr>) = quiet a b"
  "quiet (a\<lparr>incompleteDataLine := v\<rparr>) b = quiet a b"
  by (simp_all add: quiet_def)

lemma handle_parsed_error_frame:
  "f_error parsed = Some msg \<Longrightarrow> handle_parsed e model st parsed = (Some msg, st)"
  by (simp add: handle_parsed_def)

text \<open>
  The lines of a stream from a fresh state: when one of them parses to a frame without
  \<^verbatim>\<open>error\<close>, the whole header block is written before anything else, and once.
\<close>

lemma fresh_lines_header:
  assumes "\<not> writeHeadThrows e" and "\<not> replySent e"
  shows "fresh st \<Longrightarrow> header_ok e model st \<Longrightarrow>
    \<exists>f \<in> set (parsed_frames e (incompleteDataLine st) ls). f_error f = None \<Longrightarrow>
    \<exists>events. w_log (raw (snd (process_lines e model st ls))) =
               w_log (raw st) @ full_header e model @ events
             \<and> header_block events = []"
proof (induction ls arbitrary: st)
  case Nil
  then show ?case by simp
next
  case (Cons line rest)
  from Cons.prems(1) have o: "\<not> connectionClosed st" by (simp add: fresh_def)
  define dataStr where "dataStr = incompleteDataLine st @ strip_data (trim line)"
  show ?case
  proof (cases "is_data_line line")
    case False
    then have pf: "parsed_frames e (incompleteDataLine st) (line # rest)
                     = parsed_frames e (incompleteDataLine st) rest"
      by simp
    have pl: "process_lines e model st (line # rest) = process_lines e model st rest"
      using o skip_non_data [OF False, of e model st] by simp
    from Cons.IH [OF Cons.prems(1,2) Cons.prems(3) [unfolded pf]]
    show ?thesis unfolding pl .
  next
    case True
    show ?thesis
    proof (cases "dataStr = ''[DONE]''")
      case d: True
      with True Cons.prems(3) show ?thesis by (simp add: dataStr_def)
    next
      case nd: False
      show ?thesis
      proof (cases "parse e dataStr")
        case (Inl msg)
        define st' where
          "st' = st\<lparr>incompleteDataLine := (if looks_truncated msg then dataStr else [])\<rparr>"
        have pf: "parsed_frames e (incompleteDataLine st) (line # rest)
                    = parsed_frames e (incompleteDataLine st') rest"
          using True nd Inl by (simp add: dataStr_def st'_def)
        from handle_line_unparsed [OF True o dataStr_def [symmetric] nd Inl, of model] o
        have pl: "process_lines e model st (line # rest) = process_lines e model st' rest"
          by (simp add: st'_def)
        have f: "fresh st'" "header_ok e model st'" "w_log (raw st') = w_log (raw st)"
          using Cons.prems(1,2) by (simp_all add: st'_def)
        from Cons.IH [OF f(1,2) Cons.prems(3) [unfolded pf]] show ?thesis
          unfolding pl f(3) .
      next
        case (Inr v)
        show ?thesis
        proof (cases v)
          case None
          define st' where "st' = st\<lparr>incompleteDataLine := []\<rparr>"
          have i: "incompleteDataLine st' = []" by (simp add: st'_def)
          have pf: "parsed_frames e (incompleteDataLine st) (line # rest)
                      = parsed_frames e (incompleteDataLine st') rest"
            using True nd Inr None by (simp add: dataStr_def i)
          from handle_line_null [OF True o dataStr_def [symmetric] nd, of e model] Inr None o
          have pl: "process_lines e model st (line # rest) = process_lines e model st' rest"
            by (simp add: st'_def)
          have f: "fresh st'" "header_ok e model st'" "w_log (raw st') = w_log (raw st)"
            using Cons.prems(1,2) by (simp_all add: st'_def)
          from Cons.IH [OF f(1,2) Cons.prems(3) [unfolded pf]] show ?thesis
            unfolding pl f(3) .
        next
          case (Some parsed)
          have p: "parse e dataStr = Inr (Some parsed)" using Inr Some by simp
          show ?thesis
          proof (cases "f_error parsed")
            case ok: None
            from first_frame_lines [OF Cons.prems(1,2) assms True nd [unfolded dataStr_def]
                p [unfolded dataStr_def] ok, of rest]
            show ?thesis .
          next
            case err: (Some msg)
            define st' where
              "st' = st\<lparr>incompleteDataLine := pending_after parsed dataStr\<rparr>"
            have i: "incompleteDataLine st' = pending_after parsed dataStr"
              by (simp add: st'_def)
            have pf: "parsed_frames e (incompleteDataLine st) (line # rest)
                        = parsed # parsed_frames e (incompleteDataLine st') rest"
              using True nd Inr Some by (simp add: dataStr_def i)
            from handle_line_frame [OF True o dataStr_def [symmetric] nd p, of model] o
              handle_parsed_error_frame [OF err, of e model "st\<lparr>incompleteDataLine := []\<rparr>"]
            have pl: "process_lines e model st (line # rest) = process_lines e model st' rest"
              by (simp add: st'_def)
            have f: "fresh st'" "header_ok e model st'" "w_log (raw st') = w_log (raw st)"
              using Cons.prems(1,2) by (simp_all add: st'_def)
            from Cons.prems(3) [unfolded pf] err
            have "\<exists>f \<in> set (parsed_frames e (incompleteDataLine st') rest). f_error f = None"
              by simp
            from Cons.IH [OF f(1,2) this] show ?thesis
              unfolding pl f(3) .
          qed
        qed
      qed
    qed
  qed
qed

text \<open>
  The lines of a stream from any state: when none of them parses to a frame without
  \<^verbatim>\<open>error\<close>, nothing of the header block is written.
\<close>

lemma error_lines_quiet:
  "\<forall>f \<in> set (parsed_frames e (incompleteDataLine st) ls). f_error f \<noteq> None \<Longrightarrow>
   quiet st (snd (process_lines e model st ls))"
proof (induction ls arbitrary: st)
  case Nil
  then show ?case by simp
next
  case (Cons line rest)
  define dataStr where "dataStr = incompleteDataLine st @ strip_data (trim line)"
  show ?case
  proof (cases "connectionClosed st")
    case True
    then show ?thesis by simp
  next
    case o: False
    show ?thesis
    proof (cases "is_data_line line")
      case False
      then have pf: "parsed_frames e (incompleteDataLine st) (line # rest)
                       = parsed_frames e (incompleteDataLine st) rest"
        by simp
      have pl: "process_lines e model st (line # rest) = process_lines e model st rest"
        using o skip_non_data [OF False, of e model st] by simp
      from Cons.IH [OF Cons.prems [unfolded pf]] show ?thesis unfolding pl .
    next
      case True
      show ?thesis
      proof (cases "dataStr = ''[DONE]''")
        case d: True
        from handle_line_done [OF True d [unfolded dataStr_def], of e model] o
        have pl: "process_lines e model st (line # rest)
                    = (True, done_branch (st\<lparr>incompleteDataLine := []\<rparr>))"
          by simp
        from quiet_done_branch [of "st\<lparr>incompleteDataLine := []\<rparr>"]
        show ?thesis unfolding pl by simp
      next
        case nd: False
        show ?thesis
        proof (cases "parse e dataStr")
          case (Inl msg)
          define st' where
            "st' = st\<lparr>incompleteDataLine := (if looks_truncated msg then dataStr else [])\<rparr>"
          have pf: "parsed_frames e (incompleteDataLine st) (line # rest)
                      = parsed_frames e (incompleteDataLine st') rest"
            using True nd Inl by (simp add: dataStr_def st'_def)
          from handle_line_unparsed [OF True o dataStr_def [symmetric] nd Inl, of model] o
          have pl: "process_lines e model st (line # rest) = process_lines e model st' rest"
            by (simp add: st'_def)
          from Cons.IH [OF Cons.prems [unfolded pf]] show ?thesis
            unfolding pl by (simp add: st'_def)
        next
          case (Inr v)
          show ?thesis
          proof (cases v)
            case None
            define st' where "st' = st\<lparr>incompleteDataLine := []\<rparr>"
            have i: "incompleteDataLine st' = []" by (simp add: st'_def)
            have pf: "parsed_frames e (incompleteDataLine st) (line # rest)
                        = parsed_frames e (incompleteDataLine st') rest"
              using True nd Inr None by (simp add: dataStr_def i)
            from handle_line_null [OF True o dataStr_def [symmetric] nd, of e model] Inr None o
            have pl: "process_lines e model st (line # rest) = process_lines e model st' rest"
              by (simp add: st'_def)
            from Cons.IH [OF Cons.prems [unfolded pf]] show ?thesis
              unfolding pl by (simp add: st'_def)
          next
            case (Some parsed)
            have p: "parse e dataStr = Inr (Some parsed)" using Inr Some by simp
            define st' where
              "st' = st\<lparr>incompleteDataLine := pending_after parsed dataStr\<rparr>"
            have i: "incompleteDataLine st' = pending_after parsed dataStr"
              by (simp add: st'_def)
            have pf: "parsed_frames e (incompleteDataLine st) (line # rest)
                        = parsed # parsed_frames e (incompleteDataLine st') rest"
              using True nd Inr Some by (simp add: dataStr_def i)
            from Cons.prems [unfolded pf] obtain msg where err: "f_error parsed = Some msg"
              by auto
            from handle_line_frame [OF True o dataStr_def [symmetric] nd p, of model] o
              handle_parsed_error_frame [OF err, of e model "st\<lparr>incompleteDataLine := []\<rparr>"]
            have pl: "process_lines e model st (line # rest) = process_lines e model st' rest"
              by (simp add: st'_def)
            from Cons.prems [unfolded pf]
            have "\<forall>f \<in> set (parsed_frames e (incompleteDataLine st') rest). f_error f \<noteq> None"
              by simp
            from Cons.IH [OF this] show ?thesis
              unfolding pl by (simp add: st'_def)
          qed
        qed
      qed
    qed
  qed
qed

lemma fresh_init: "fresh init_state"
  by (simp add: fresh_def init_state_def init_writer_def writable_def)

lemma init_state_empty:
  "w_log (raw init_state) = []" "incompleteDataLine init_state = []"
  by (simp_all add: init_state_def init_writer_def)

text \<open>
  Claim C5, as stated, fails: what makes the handler write the header block is not a
  frame that bears content. Line 394 calls \<^verbatim>\<open>sendSuccessMessage\<close> for every data line
  whose text, with the pending incomplete data line in front, parses to a frame without
  \<^verbatim>\<open>error\<close>: the empty object, which has no \<^verbatim>\<open>choices\<close>, makes the handler write the
  whole block, and a frame with content that comes after a data line which did not parse is
  glued to it and writes nothing at all. When \<^verbatim>\<open>writeHead\<close> throws nothing is written, and
  when \<^verbatim>\<open>reply.sent\<close> is true the content is written without the header block.
\<close>

theorem header_trigger_counterexample:
  "f_delta empty_frame = None
   \<and> w_log (raw (snd (handler empty_env example_config streaming_payload False
         (Fetched (open_stream\<lparr>up_reads := quiet_reads empty_then_done\<rparr>))))) =
       [WriteHead 200 sse_headers, Write (MessageStart ''msg_k3x9'' ''kimi-c'' [] 0 0),
        Write Ping, Write (MessageDelta ''end_turn'' (Some 2)), Write MessageStop, End]
   \<and> w_log (raw (snd (handler example_env example_config streaming_payload False
         (Fetched (open_stream\<lparr>up_reads := quiet_reads broken_then_frame\<rparr>))))) = [End]
   \<and> w_log (raw (snd (handler (example_env\<lparr>writeHeadThrows := True\<rparr>) example_config
         streaming_payload False
         (Fetched (open_stream\<lparr>up_reads := quiet_reads frame_then_done\<rparr>))))) = []
   \<and> w_log (raw (snd (handler (example_env\<lparr>replySent := True\<rparr>) example_config
         streaming_payload False
         (Fetched (open_stream\<lparr>up_reads := quiet_reads frame_then_done\<rparr>))))) =
       [Write (ContentBlockStart 0 (TextBlock [])),
        Write (ContentBlockDelta 0 (TextDelta ''hi'')),
        Write (ContentBlockStop 0), Write (MessageDelta ''end_turn'' (Some 2)),
        Write MessageStop, End]"
proof -
  have a: "w_log (raw (snd (handler empty_env example_config streaming_payload False
         (Fetched (open_stream\<lparr>up_reads := quiet_reads empty_then_done\<rparr>))))) =
       [WriteHead 200 sse_headers, Write (MessageStart ''msg_k3x9'' ''kimi-c'' [] 0 0),
        Write Ping, Write (MessageDelta ''end_turn'' (Some 2)), Write MessageStop, End]"
    by (simp add: handler_def stream_defs example_defs empty_env_def empty_parse_def
        empty_frame_def open_stream_def quiet_reads_def empty_then_done_def done_branch_def
        word_count_def raw_end_def Let_def)
  have b: "w_log (raw (snd (handler example_env example_config streaming_payload False
         (Fetched (open_stream\<lparr>up_reads := quiet_reads broken_then_frame\<rparr>))))) = [End]"
    by (simp add: handler_def stream_defs example_defs open_stream_def quiet_reads_def
        broken_then_frame_def raw_end_def Let_def)
  have c: "w_log (raw (snd (handler (example_env\<lparr>writeHeadThrows := True\<rparr>) example_config
         streaming_payload False
         (Fetched (open_stream\<lparr>up_reads := quiet_reads frame_then_done\<rparr>))))) = []"
    by (simp add: handler_def stream_defs example_defs open_stream_def quiet_reads_def
        frame_then_done_def raw_end_def Let_def)
  have d: "w_log (raw (snd (handler (example_env\<lparr>replySent := True\<rparr>) example_config
         streaming_payload False
         (Fetched (open_stream\<lparr>up_reads := quiet_reads frame_then_done\<rparr>))))) =
       [Write (ContentBlockStart 0 (TextBlock [])),
        Write (ContentBlockDelta 0 (TextDelta ''hi'')),
        Write (ContentBlockStop 0), Write (MessageDelta ''end_turn'' (Some 2)),
        Write MessageStop, End]"
    by (simp add: handler_def stream_defs example_defs open_stream_def quiet_reads_def
        frame_then_done_def done_branch_def word_count_def raw_end_def Let_def)
  from a b c d show ?thesis by (simp add: empty_frame_def)
qed

text \<open>
  Claim C5, amended. In what any request has written when its handler is done, the header
  block (the call of \<^verbatim>\<open>writeHead\<close> with status 200 and the three headers, the
  \<^verbatim>\<open>message_start\<close> event with empty content and zero usage, the \<^verbatim>\<open>ping\<close>) stands at
  most once. Take a streamed request whose upstream response is \<^verbatim>\<open>ok\<close> and is read with
  no close event, and the frames that the lines of its text parse to up to the sentinel.
  When one of them has no \<^verbatim>\<open>error\<close>, \<^verbatim>\<open>writeHead\<close> does not throw and \<^verbatim>\<open>reply.sent\<close> is
  false, what the handler has written is the whole header block, then events none of which
  belongs to a header block: the block is written exactly once, before anything else. And
  the handler has written something of a header block only when one of these frames has no
  \<^verbatim>\<open>error\<close>.
\<close>

theorem header_once:
  "header_block (w_log (raw (snd (handler e cfg p gone fr))))
     \<in> set [[], [WriteHead 200 sse_headers], full_header e (op_model (build_payload cfg p))]
   \<and> (p_stream p \<and> up_ok up \<and> up_reads up = quiet_reads chunks
        \<and> \<not> writeHeadThrows e \<and> \<not> replySent e
        \<and> (\<exists>f \<in> set (parsed_frames e [] (complete_lines (concat chunks))). f_error f = None)
      \<longrightarrow> (\<exists>events. w_log (raw (snd (handler e cfg p False (Fetched up)))) =
                       full_header e (op_model (build_payload cfg p)) @ events
                     \<and> header_block events = []))
   \<and> (p_stream p \<and> up_ok up \<and> up_reads up = quiet_reads chunks
        \<and> header_block (w_log (raw (snd (handler e cfg p False (Fetched up))))) \<noteq> []
      \<longrightarrow> (\<exists>f \<in> set (parsed_frames e [] (complete_lines (concat chunks))). f_error f = None))"
proof -
  let ?m = "op_model (build_payload cfg p)"
  let ?ls = "complete_lines (concat chunks)"
  have a: "header_block (w_log (raw (snd (handler e cfg p gone fr))))
     \<in> set [[], [WriteHead 200 sse_headers], full_header e ?m]"
    using header_ok_handler [of e cfg p gone fr] by (simp add: header_ok_def)
  have b: "\<exists>events. w_log (raw (snd (handler e cfg p False (Fetched up)))) =
                       full_header e ?m @ events \<and> header_block events = []"
    if h: "p_stream p" "up_ok up" "up_reads up = quiet_reads chunks"
      "\<not> writeHeadThrows e" "\<not> replySent e"
      "\<exists>f \<in> set (parsed_frames e [] ?ls). f_error f = None"
  proof -
    have ok: "header_ok e ?m init_state"
      using header_ok_init [of e ?m False] by (simp add: init_state_open)
    from fresh_lines_header [where st = init_state and ls = ?ls and model = ?m,
        OF h(4,5) fresh_init ok] h(6)
    obtain events where ev: "w_log (raw (snd (process_lines e ?m init_state ?ls))) =
        full_header e ?m @ events" "header_block events = []"
      by (auto simp: init_state_empty)
    from handler_stream_log [OF h(1-3), of e cfg]
    obtain tail where t: "w_log (raw (snd (handler e cfg p False (Fetched up)))) =
        w_log (raw (snd (process_lines e ?m init_state ?ls))) @ tail"
      "tail = [] \<or> tail = [End]"
      by blast
    from t(2) have "header_block tail = []" by auto
    with ev t(1) have "w_log (raw (snd (handler e cfg p False (Fetched up)))) =
        full_header e ?m @ (events @ tail) \<and> header_block (events @ tail) = []"
      by simp
    then show ?thesis by blast
  qed
  have c: "\<exists>f \<in> set (parsed_frames e [] ?ls). f_error f = None"
    if h: "p_stream p" "up_ok up" "up_reads up = quiet_reads chunks"
      "header_block (w_log (raw (snd (handler e cfg p False (Fetched up))))) \<noteq> []"
  proof (rule ccontr)
    assume "\<not> (\<exists>f \<in> set (parsed_frames e [] ?ls). f_error f = None)"
    then have "\<forall>f \<in> set (parsed_frames e (incompleteDataLine init_state) ?ls).
                 f_error f \<noteq> None"
      by (simp add: init_state_empty)
    from error_lines_quiet [OF this, of ?m]
    have q: "header_block (w_log (raw (snd (process_lines e ?m init_state ?ls)))) = []"
      by (auto simp: quiet_def init_state_empty)
    from handler_stream_log [OF h(1-3), of e cfg]
    obtain tail where t: "w_log (raw (snd (handler e cfg p False (Fetched up)))) =
        w_log (raw (snd (process_lines e ?m init_state ?ls))) @ tail"
      "tail = [] \<or> tail = [End]"
      by blast
    from t(2) have "header_block tail = []" by auto
    with q t(1) h(4) show False by simp
  qed
  from a b c show ?thesis by blast
qed

theorem header_once_witness:
  "p_stream streaming_payload
   \<and> parsed_frames example_env [] (complete_lines (concat frame_then_done)) = [example_frame]
   \<and> f_error example_frame = None
   \<and> w_log (raw (snd (handler example_env example_config streaming_payload False
         (Fetched (open_stream\<lparr>up_reads := quiet_reads frame_then_done\<rparr>))))) =
       full_header example_env ''kimi-c''
       @ [Write (ContentBlockStart 0 (TextBlock [])),
          Write (ContentBlockDelta 0 (TextDelta ''hi'')),
          Write (ContentBlockStop 0), Write (MessageDelta ''end_turn'' (Some 2)),
          Write MessageStop, End]
   \<and> header_block (w_log (raw (snd (handler example_env example_config streaming_payload
         False (Fetched (open_stream\<lparr>up_reads := quiet_reads frame_then_done\<rparr>))))))
       = full_header example_env ''kimi-c''
   \<and> (\<exists>events. w_log (raw (snd (handler example_env example_config streaming_payload False
         (Fetched (open_stream\<lparr>up_reads := quiet_reads frame_then_done\<rparr>))))) =
           full_header example_env (op_model (build_payload example_config streaming_payload))
           @ events
         \<and> header_block events = [])"
proof -
  let ?up = "open_stream\<lparr>up_reads := quiet_reads frame_then_done\<rparr>"
  have 1: "p_stream streaming_payload"
    by (simp add: streaming_payload_def example_payload_def)
  have 2: "up_ok ?up" by (simp add: open_stream_def)
  have 3: "up_reads ?up = quiet_reads frame_then_done" by simp
  have 4: "\<not> writeHeadThrows example_env" "\<not> replySent example_env"
    by (simp_all add: example_env_def)
  have pf: "parsed_frames example_env [] (complete_lines (concat frame_then_done))
              = [example_frame]"
    by (simp add: frame_then_done_def complete_lines_def is_data_line_def trim_def
        is_space_def strip_data_def example_env_def example_parse_def example_frame_text_def
        pending_after_def example_frame_def)
  have 5: "f_error example_frame = None" by (simp add: example_frame_def)
  have 6: "\<exists>f \<in> set (parsed_frames example_env [] (complete_lines (concat frame_then_done))).
             f_error f = None"
    unfolding pf using 5 by simp
  have l: "w_log (raw (snd (handler example_env example_config streaming_payload False
         (Fetched ?up)))) =
       full_header example_env ''kimi-c''
       @ [Write (ContentBlockStart 0 (TextBlock [])),
          Write (ContentBlockDelta 0 (TextDelta ''hi'')),
          Write (ContentBlockStop 0), Write (MessageDelta ''end_turn'' (Some 2)),
          Write MessageStop, End]"
    by (simp add: handler_def stream_defs example_defs open_stream_def quiet_reads_def
        frame_then_done_def done_branch_def full_header_def word_count_def raw_end_def
        Let_def)
  have h: "header_block (w_log (raw (snd (handler example_env example_config
         streaming_payload False (Fetched ?up))))) = full_header example_env ''kimi-c''"
    unfolding l by (simp add: full_header_def)
  note inst = header_once [where e = example_env and cfg = example_config
      and p = streaming_payload and gone = False and fr = "Fetched ?up" and up = "?up"
      and chunks = frame_then_done]
  from inst 1 2 3 4 6
  have ex: "\<exists>events. w_log (raw (snd (handler example_env example_config streaming_payload
         False (Fetched ?up)))) =
           full_header example_env (op_model (build_payload example_config streaming_payload))
           @ events
         \<and> header_block events = []"
    by blast
  from 1 pf 5 l h ex show ?thesis by blast
qed

end
